theory Spec2Isabelle
  imports Complex_Main
begin

section \<open>JavaScript strings and numbers\<close>

text \<open>
  Strings are lists of code units. \<open>slice\<close> is \<open>String.prototype.slice\<close> and
  \<open>Array.prototype.slice\<close> on indices \<open>0 \<le> a \<le> b\<close>; \<open>slice_from\<close> is the
  one-argument form.
\<close>

definition slice :: "'a list \<Rightarrow> nat \<Rightarrow> nat \<Rightarrow> 'a list" where
  "slice xs a b = take (b - a) (drop a xs)"

definition slice_from :: "'a list \<Rightarrow> nat \<Rightarrow> 'a list" where
  "slice_from xs a = drop a xs"

text \<open>
  Characters are the 8-bit code units of HOL; the character classes below are the
  ECMAScript ones restricted to that range: \<^verbatim>\<open>\d\<close> is \<open>[0-9]\<close>, \<^verbatim>\<open>\s\<close> is tab, line
  feed, vertical tab, form feed, carriage return, space and no-break space.
\<close>

definition is_digit :: "char \<Rightarrow> bool" where
  "is_digit c = (c \<in> set ''0123456789'')"

definition is_space :: "char \<Rightarrow> bool" where
  "is_space c = (c \<in> {CHR 0x09, CHR 0x0A, CHR 0x0B, CHR 0x0C, CHR 0x0D, CHR 0x20, CHR 0xA0})"

definition is_upper_AZ :: "char \<Rightarrow> bool" where
  "is_upper_AZ c = (65 \<le> (of_char c :: nat) \<and> (of_char c :: nat) \<le> 90)"

definition to_upper :: "char \<Rightarrow> char" where
  "to_upper c =
     (if 97 \<le> (of_char c :: nat) \<and> (of_char c :: nat) \<le> 122
      then (case c of Char b0 b1 b2 b3 b4 b5 b6 b7 \<Rightarrow> Char b0 b1 b2 b3 b4 False b6 b7)
      else c)"

definition to_lower :: "char \<Rightarrow> char" where
  "to_lower c =
     (if 65 \<le> (of_char c :: nat) \<and> (of_char c :: nat) \<le> 90
      then (case c of Char b0 b1 b2 b3 b4 b5 b6 b7 \<Rightarrow> Char b0 b1 b2 b3 b4 True b6 b7)
      else c)"

text \<open>\<^verbatim>\<open>text.replace(/\s+/g, ' ')\<close>: every maximal run of white space becomes one space.\<close>

function collapse_ws :: "string \<Rightarrow> string" where
  "collapse_ws [] = []"
| "collapse_ws (c # cs) =
     (if is_space c then CHR '' '' # collapse_ws (dropWhile is_space cs)
      else c # collapse_ws cs)"
  by pat_completeness auto
termination
  by (relation "measure length") (auto simp: length_dropWhile_le less_Suc_eq_le)

text \<open>\<^verbatim>\<open>s.replace(/\D/g, '')\<close> keeps the digits; \<^verbatim>\<open>s.trim()\<close> strips white space at both ends.\<close>

definition strip_non_digits :: "string \<Rightarrow> string" where
  "strip_non_digits s = filter is_digit s"

definition trim :: "string \<Rightarrow> string" where
  "trim s = rev (dropWhile is_space (rev (dropWhile is_space s)))"

text \<open>\<^verbatim>\<open>s.split(sep)\<close> for a one-character separator.\<close>

fun split_on :: "char \<Rightarrow> string \<Rightarrow> string list" where
  "split_on sep [] = [[]]"
| "split_on sep (c # cs) =
     (if c = sep then [] # split_on sep cs
      else (case split_on sep cs of p # ps \<Rightarrow> (c # p) # ps | [] \<Rightarrow> [[c]]))"

text \<open>
  \<^verbatim>\<open>Number(s)\<close> and \<^verbatim>\<open>parseInt(s)\<close> on a string of decimal digits, \<^verbatim>\<open>String(n)\<close> on an
  integer, and \<^verbatim>\<open>s.padStart(n, '0')\<close>.
\<close>

definition digit_val :: "char \<Rightarrow> nat" where
  "digit_val c = (of_char c :: nat) - 48"

definition js_Number :: "string \<Rightarrow> nat" where
  "js_Number s = foldl (\<lambda>acc c. 10 * acc + digit_val c) 0 s"

definition digit_char :: "nat \<Rightarrow> char" where
  "digit_char d = ''0123456789'' ! d"

fun show_nat :: "nat \<Rightarrow> string" where
  "show_nat n = (if n < 10 then [digit_char n] else show_nat (n div 10) @ [digit_char (n mod 10)])"

declare show_nat.simps [simp del]

definition js_String :: "int \<Rightarrow> string" where
  "js_String i = (if i < 0 then CHR ''-'' # show_nat (nat (- i)) else show_nat (nat i))"

definition padStart :: "nat \<Rightarrow> string \<Rightarrow> string" where
  "padStart n s = replicate (n - length s) CHR ''0'' @ s"

section \<open>Regular expressions\<close>

text \<open>
  The patterns of the scripts are sequences of literals, quantified character classes and
  one alternation of literals, with capture groups around consecutive parts and no group
  under a quantifier. A pattern is the list of its parts, the \<open>i\<close> flag, and each capture
  group as the range of parts it encloses.

  \<open>rmatch\<close> is the backtracking matcher anchored at the start of the input: a quantifier
  is greedy (the longest repetition is tried first, then shorter ones), alternatives are
  tried left to right, and the first way to match the whole pattern wins. It returns the
  text matched by every part. \<open>rsearch\<close> tries every start position from the left, and
  \<open>match_js\<close> is \<^verbatim>\<open>String.prototype.match\<close> for a pattern without the \<open>g\<close> flag: the
  matched text followed by the captures, or \<open>None\<close> for \<^verbatim>\<open>null\<close>.
\<close>

datatype item = Lit string | Rep "char \<Rightarrow> bool" nat "nat option" | Alt "string list"

definition char_eq :: "bool \<Rightarrow> char \<Rightarrow> char \<Rightarrow> bool" where
  "char_eq ci p c = (if ci then to_upper p = to_upper c else p = c)"

definition cls_match :: "bool \<Rightarrow> (char \<Rightarrow> bool) \<Rightarrow> char \<Rightarrow> bool" where
  "cls_match ci P c = (if ci then P (to_upper c) \<or> P (to_lower c) else P c)"

fun lit_match :: "bool \<Rightarrow> string \<Rightarrow> string \<Rightarrow> bool" where
  "lit_match ci [] s = True"
| "lit_match ci (p # ps) [] = False"
| "lit_match ci (p # ps) (c # cs) = (char_eq ci p c \<and> lit_match ci ps cs)"

primrec first_some :: "('a \<Rightarrow> 'b option) \<Rightarrow> 'a list \<Rightarrow> 'b option" where
  "first_some f [] = None"
| "first_some f (x # xs) = (case f x of Some r \<Rightarrow> Some r | None \<Rightarrow> first_some f xs)"

definition lit_step ::
    "bool \<Rightarrow> (string \<Rightarrow> string list option) \<Rightarrow> string \<Rightarrow> string \<Rightarrow> string list option" where
  "lit_step ci k s l =
     (if lit_match ci l s then map_option ((#) (take (length l) s)) (k (drop (length l) s))
      else None)"

definition rep_step ::
    "(string \<Rightarrow> string list option) \<Rightarrow> string \<Rightarrow> nat \<Rightarrow> string list option" where
  "rep_step k s n = map_option ((#) (take n s)) (k (drop n s))"

definition rep_max :: "bool \<Rightarrow> (char \<Rightarrow> bool) \<Rightarrow> nat option \<Rightarrow> string \<Rightarrow> nat" where
  "rep_max ci P hi s =
     (let n = length (takeWhile (cls_match ci P) s)
      in case hi of None \<Rightarrow> n | Some h \<Rightarrow> min h n)"

primrec rmatch :: "item list \<Rightarrow> bool \<Rightarrow> string \<Rightarrow> string list option" where
  "rmatch [] ci s = Some []"
| "rmatch (i # is) ci s =
     (case i of
        Lit l \<Rightarrow> lit_step ci (rmatch is ci) s l
      | Rep P lo hi \<Rightarrow> first_some (rep_step (rmatch is ci) s) (rev [lo ..< Suc (rep_max ci P hi s)])
      | Alt ls \<Rightarrow> first_some (lit_step ci (rmatch is ci) s) ls)"

primrec rsearch :: "item list \<Rightarrow> bool \<Rightarrow> string \<Rightarrow> string list option" where
  "rsearch is ci [] = rmatch is ci []"
| "rsearch is ci (c # cs) =
     (case rmatch is ci (c # cs) of Some ts \<Rightarrow> Some ts | None \<Rightarrow> rsearch is ci cs)"

record regex =
  ignoreCase :: bool
  items :: "item list"
  groups :: "(nat \<times> nat) list"

definition match_js :: "regex \<Rightarrow> string \<Rightarrow> string list option" where
  "match_js re s =
     map_option (\<lambda>ts. concat ts # map (\<lambda>(a, b). concat (slice ts a b)) (groups re))
       (rsearch (items re) (ignoreCase re) s)"

subsection \<open>The patterns of the scripts\<close>

text \<open>\<^verbatim>\<open>/Exam Date: (\d{1,2}\/\d{1,2}\/\d{4})/\<close>\<close>

definition re_examDate :: regex where
  "re_examDate = \<lparr> ignoreCase = False,
     items = [Lit ''Exam Date: '',
              Rep is_digit 1 (Some 2), Lit ''/'', Rep is_digit 1 (Some 2), Lit ''/'',
              Rep is_digit 4 (Some 4)],
     groups = [(1, 6)] \<rparr>"

text \<open>\<^verbatim>\<open>/Fax:\s*([0-9-]+)/i\<close>\<close>

definition re_fax :: regex where
  "re_fax = \<lparr> ignoreCase = True,
     items = [Lit ''Fax:'', Rep is_space 0 None, Rep (\<lambda>c. is_digit c \<or> c = CHR ''-'') 1 None],
     groups = [(2, 3)] \<rparr>"

text \<open>\<^verbatim>\<open>/(?:Fax:|To:|FAX:|TO:)\s*([0-9\s\-]+)/i\<close>\<close>

definition re_to :: regex where
  "re_to = \<lparr> ignoreCase = True,
     items = [Alt [''Fax:'', ''To:'', ''FAX:'', ''TO:''], Rep is_space 0 None,
              Rep (\<lambda>c. is_digit c \<or> is_space c \<or> c = CHR ''-'') 1 None],
     groups = [(2, 3)] \<rparr>"

text \<open>
  \<^verbatim>\<open>/(\d{1,2}\/\d{1,2}\/\d{4} \d{1,2}:\d{2} [AP]M)/\<close>, the same parts with one group
  each, \<^verbatim>\<open>/(\d{1,2})\/(\d{1,2})\/(\d{4}) (\d{1,2}):(\d{2}) ([AP]M)/\<close>, and the pattern of
  the last Received script, \<^verbatim>\<open>/(\d{1,2}\/\d{1,2}\/\d{4} \d{1,2}:\d{2} [P]M)/\<close>.
\<close>

definition dateTime_items :: "(char \<Rightarrow> bool) \<Rightarrow> item list" where
  "dateTime_items period =
     [Rep is_digit 1 (Some 2), Lit ''/'', Rep is_digit 1 (Some 2), Lit ''/'', Rep is_digit 4 (Some 4),
      Lit '' '', Rep is_digit 1 (Some 2), Lit '':'', Rep is_digit 2 (Some 2), Lit '' '',
      Rep period 1 (Some 1), Lit ''M'']"

definition re_dateTime :: regex where
  "re_dateTime = \<lparr> ignoreCase = False,
     items = dateTime_items (\<lambda>c. c = CHR ''A'' \<or> c = CHR ''P''),
     groups = [(0, 12)] \<rparr>"

definition re_dateTimeParts :: regex where
  "re_dateTimeParts = \<lparr> ignoreCase = False,
     items = dateTime_items (\<lambda>c. c = CHR ''A'' \<or> c = CHR ''P''),
     groups = [(0, 1), (2, 3), (4, 5), (6, 7), (8, 9), (10, 12)] \<rparr>"

definition re_dateTimePM :: regex where
  "re_dateTimePM = \<lparr> ignoreCase = False,
     items = dateTime_items (\<lambda>c. c = CHR ''P''),
     groups = [(0, 12)] \<rparr>"

text \<open>
  \<^verbatim>\<open>/PHYSICIAN INFORMATION\s*([A-Z\s,\.]+(?:MD|M\.D\.|DO|D\.O\.|APN|N\.P\.|M\.D|D\.O|APRN|M\.D|APRN\.))/i\<close>
  and \<^verbatim>\<open>/PHYSICIAN NAME\s*[:\-]?\s*([A-Z\s,\.]+)/i\<close>
\<close>

definition name_char :: "char \<Rightarrow> bool" where
  "name_char c = (is_upper_AZ c \<or> is_space c \<or> c = CHR '','' \<or> c = CHR ''.'')"

definition credentials :: "string list" where
  "credentials = [''MD'', ''M.D.'', ''DO'', ''D.O.'', ''APN'', ''N.P.'', ''M.D'', ''D.O'', ''APRN'',
                  ''M.D'', ''APRN.'']"

definition re_physicianInformation :: regex where
  "re_physicianInformation = \<lparr> ignoreCase = True,
     items = [Lit ''PHYSICIAN INFORMATION'', Rep is_space 0 None, Rep name_char 1 None,
              Alt credentials],
     groups = [(2, 4)] \<rparr>"

definition re_physicianName :: regex where
  "re_physicianName = \<lparr> ignoreCase = True,
     items = [Lit ''PHYSICIAN NAME'', Rep is_space 0 None,
              Rep (\<lambda>c. c = CHR '':'' \<or> c = CHR ''-'') 0 (Some 1), Rep is_space 0 None,
              Rep name_char 1 None],
     groups = [(4, 5)] \<rparr>"

section \<open>formatPhoneNumber\<close>

text \<open>
  \<^verbatim>\<open>if (phone.length === 10) return `(${phone.slice(0, 3)}) ${phone.slice(3, 6)} - ${phone.slice(6)}`;\<close>
  \<^verbatim>\<open>return phone;\<close>
  The function is the same in all six scripts.
\<close>

definition formatPhoneNumber :: "string \<Rightarrow> string" where
  "formatPhoneNumber phone =
     (if length phone = 10
      then ''('' @ slice phone 0 3 @ '') '' @ slice phone 3 6 @ '' - '' @ slice_from phone 6
      else phone)"

section \<open>Dates\<close>

text \<open>
  The scripts use \<^verbatim>\<open>Date\<close> objects in local time: \<^verbatim>\<open>new Date(year, monthIndex, day, hours, minutes)\<close>,
  \<^verbatim>\<open>setDate\<close> and the getters. The fields given are first brought into range on the
  proleptic Gregorian calendar of ECMAScript: fields out of range carry over into the
  next unit, a year from 0 to 99 given to the constructor means 1900 plus that year, and
  day 0 of a month is the last day of the month before. The local time so obtained is
  then turned into an instant and read back through the getters in the time zone of the
  host, which moves a time that a daylight-saving transition skips. That time zone is
  the parameter \<open>tz\<close>: the local time read back for a local time given. It is the
  identity where the zone has no transition.
\<close>

definition leap_year :: "int \<Rightarrow> bool" where
  "leap_year y = (y mod 4 = 0 \<and> (y mod 100 \<noteq> 0 \<or> y mod 400 = 0))"

definition days_in_month :: "int \<Rightarrow> int \<Rightarrow> int" where
  "days_in_month y m =
     (if m = 2 then (if leap_year y then 29 else 28)
      else if m = 4 \<or> m = 6 \<or> m = 9 \<or> m = 11 then 30 else 31)"

definition prev_month :: "int \<Rightarrow> int \<Rightarrow> int \<times> int" where
  "prev_month y m = (if m \<le> 1 then (y - 1, 12) else (y, m - 1))"

definition next_month :: "int \<Rightarrow> int \<Rightarrow> int \<times> int" where
  "next_month y m = (if 12 \<le> m then (y + 1, 1) else (y, m + 1))"

function date_norm :: "int \<Rightarrow> int \<Rightarrow> int \<Rightarrow> int \<times> int \<times> int" where
  "date_norm y m d =
     (if d < 1
      then date_norm (fst (prev_month y m)) (snd (prev_month y m))
             (d + days_in_month (fst (prev_month y m)) (snd (prev_month y m)))
      else if days_in_month y m < d
      then date_norm (fst (next_month y m)) (snd (next_month y m)) (d - days_in_month y m)
      else (y, m, d))"
  by pat_completeness auto
termination
  by (relation "measure (\<lambda>(y, m, d). if d < 1 then nat (64 - d) else nat d)")
     (auto simp: days_in_month_def)

declare date_norm.simps [simp del]

record js_date =
  dYear :: int
  dMonth :: int
  dDate :: int
  dHours :: int
  dMinutes :: int
  dSeconds :: int

definition js_year :: "int \<Rightarrow> int" where
  "js_year y = (if 0 \<le> y \<and> y \<le> 99 then 1900 + y else y)"

definition new_Date :: "(js_date \<Rightarrow> js_date) \<Rightarrow> int \<Rightarrow> int \<Rightarrow> int \<Rightarrow> int \<Rightarrow> int \<Rightarrow> js_date" where
  "new_Date tz year monthIndex day hours minutes =
     (let t = hours * 60 + minutes;
          ymd = date_norm (js_year year + monthIndex div 12) (monthIndex mod 12 + 1) (day + t div 1440)
      in tz \<lparr> dYear = fst ymd, dMonth = fst (snd ymd) - 1, dDate = snd (snd ymd),
              dHours = (t mod 1440) div 60, dMinutes = t mod 60, dSeconds = 0 \<rparr>)"

definition setDate :: "(js_date \<Rightarrow> js_date) \<Rightarrow> int \<Rightarrow> js_date \<Rightarrow> js_date" where
  "setDate tz day dateObj =
     (let ymd = date_norm (dYear dateObj) (dMonth dateObj + 1) day
      in tz (dateObj \<lparr> dYear := fst ymd, dMonth := fst (snd ymd) - 1, dDate := snd (snd ymd) \<rparr>))"

section \<open>Math.random and getRandomTime\<close>

text \<open>
  \<^verbatim>\<open>Math.random()\<close> returns a double in \<open>[0, 1)\<close>; the engines return a multiple of
  \<open>2\<^sup>-\<^sup>5\<^sup>3\<close>, so a draw is the natural number \<open>k < 2\<^sup>5\<^sup>3\<close> with value \<open>k / 2\<^sup>5\<^sup>3\<close>. The
  successive draws of a run are a tape. A double in the range used here is a natural
  number \<open>n\<close> of at most 53 significant bits standing for \<open>n / 2\<^sup>5\<^sup>3\<close>, and every
  arithmetic operation rounds its exact result to the nearest such number, ties to the
  even one (IEEE 754 binary64, round to nearest even).
\<close>

type_synonym random_tape = "nat \<Rightarrow> nat"

fun bit_length :: "nat \<Rightarrow> nat" where
  "bit_length n = (if n = 0 then 0 else Suc (bit_length (n div 2)))"

declare bit_length.simps [simp del]

definition round_half_even :: "nat \<Rightarrow> nat \<Rightarrow> nat" where
  "round_half_even n d =
     (let q = n div d; r = n mod d
      in if 2 * r < d then q else if d < 2 * r then q + 1 else if even q then q else q + 1)"

definition round53 :: "nat \<Rightarrow> nat" where
  "round53 n = round_half_even n (2 ^ (bit_length n - 53)) * 2 ^ (bit_length n - 53)"

definition double_times :: "nat \<Rightarrow> nat \<Rightarrow> nat" where
  "double_times x c = round53 (x * c)"

definition double_plus :: "nat \<Rightarrow> nat \<Rightarrow> nat" where
  "double_plus x c = round53 (x + c * 2 ^ 53)"

definition double_floor :: "nat \<Rightarrow> nat" where
  "double_floor x = x div 2 ^ 53"

text \<open>
  \<^verbatim>\<open>const randomHour = Math.floor(Math.random() * (endHour - startHour) + startHour);\<close>
  \<^verbatim>\<open>const randomMinute = Math.floor(Math.random() * 60);\<close>
  \<^verbatim>\<open>const randomSecond = Math.floor(Math.random() * 60);\<close>
\<close>

definition getRandomTime :: "random_tape \<Rightarrow> (nat \<times> nat \<times> nat) \<times> random_tape" where
  "getRandomTime tape =
     (let startHour = 8; endHour = 17;
          randomHour = double_floor (double_plus (double_times (tape 0) (endHour - startHour)) startHour);
          randomMinute = double_floor (double_times (tape 1) 60);
          randomSecond = double_floor (double_times (tape 2) 60)
      in ((randomHour, randomMinute, randomSecond), (\<lambda>i. tape (i + 3))))"

section \<open>parsePdfText\<close>

text \<open>
  The repository holds six scripts, each with its own \<^verbatim>\<open>parsePdfText\<close>:
  \<^item> \<open>sent1\<close>: \<^verbatim>\<open>sent.js\<close>, first script (Sent, date only, one day earlier, random time);
  \<^item> \<open>sent2\<close>: \<^verbatim>\<open>sent.js\<close>, second script (Received, \<open>to\<close> extracted);
  \<^item> \<open>received\<close>: \<^verbatim>\<open>received.js\<close> (Received, \<open>to\<close> extracted);
  \<^item> \<open>part000a\<close>: \<^verbatim>\<open>unnamed/part_000\<close>, first script (Sent, date and time);
  \<^item> \<open>part000b\<close>: \<^verbatim>\<open>unnamed/part_000\<close>, second script (Sent, date and time, one day earlier);
  \<^item> \<open>part001\<close>: \<^verbatim>\<open>unnamed/part_001\<close> (Received, \<open>from\<close> extracted).

  A field that is \<^verbatim>\<open>null\<close> is \<open>None\<close>. The final test
  \<^verbatim>\<open>if (record.createdAt && record.from && record.sender)\<close> is JavaScript truthiness: a
  string passes when it is neither \<^verbatim>\<open>null\<close> nor empty. Each function is split into the
  part that fills the record and the final test.
\<close>

datatype error = TypeError | ReferenceError | ReadError

record fax_record =
  rec_type :: string
  rec_to :: "string option"
  rec_from :: "string option"
  rec_subject :: string
  rec_sender :: "string option"
  rec_createdAt :: "string option"
  rec_attachment :: "string option"
  rec_file_extension :: "string option"

definition truthy :: "string option \<Rightarrow> bool" where
  "truthy v = (case v of None \<Rightarrow> False | Some s \<Rightarrow> s \<noteq> [])"

definition sent_record :: fax_record where
  "sent_record = \<lparr> rec_type = ''Sent'', rec_to = Some ''(207) 261 - 0798'', rec_from = None,
     rec_subject = ''PRIOR AUTHORIZATION PRESCRIPTION REQUEST'',
     rec_sender = Some ''RIGHT CHOICE MEDICAL SUPPLY'', rec_createdAt = None,
     rec_attachment = None, rec_file_extension = None \<rparr>"

definition received_record :: fax_record where
  "received_record = \<lparr> rec_type = ''Received'', rec_to = None, rec_from = Some ''(207) 261 - 0798'',
     rec_subject = ''PRIOR AUTHORIZATION PRESCRIPTION REQUEST'',
     rec_sender = None, rec_createdAt = None,
     rec_attachment = None, rec_file_extension = None \<rparr>"

definition received_record_part001 :: fax_record where
  "received_record_part001 = \<lparr> rec_type = ''Received'', rec_to = Some ''(207) 261 - 0798'', rec_from = None,
     rec_subject = ''PRIOR AUTHORIZATION PRESCRIPTION REQUEST'',
     rec_sender = None, rec_createdAt = None,
     rec_attachment = None, rec_file_extension = None \<rparr>"

subsection \<open>createdAt\<close>

text \<open>
  \<open>sent1\<close>:
  \<^verbatim>\<open>let [month, day, year] = createdAtMatch[1].split('/').map(Number);\<close>
  \<^verbatim>\<open>day -= 1; if (day <= 0) { month -= 1; if (month <= 0) { year -= 1; month = 12; } day = new Date(year, month, 0).getDate(); }\<close>
  The capture always consists of three runs of digits (lemma \<open>examDate_capture_parts\<close>),
  so the three list positions exist.
\<close>

definition oneDayEarlier :: "(js_date \<Rightarrow> js_date) \<Rightarrow> int \<Rightarrow> int \<Rightarrow> int \<Rightarrow> int \<times> int \<times> int" where
  "oneDayEarlier tz month day year =
     (let day = day - 1
      in if day \<le> 0
         then (let month = month - 1;
                   year = (if month \<le> 0 then year - 1 else year);
                   month = (if month \<le> 0 then 12 else month);
                   day = dDate (new_Date tz year month 0 0 0)
               in (month, day, year))
         else (month, day, year))"

definition createdAt_sent1 :: "(js_date \<Rightarrow> js_date) \<Rightarrow> random_tape \<Rightarrow> string \<Rightarrow> string \<times> random_tape" where
  "createdAt_sent1 tz tape capture =
     (let parts = map js_Number (split_on CHR ''/'' capture);
          mdy = oneDayEarlier tz (int (parts ! 0)) (int (parts ! 1)) (int (parts ! 2));
          month = fst mdy; day = fst (snd mdy); year = snd (snd mdy);
          rt = getRandomTime tape;
          randomHour = fst (fst rt); randomMinute = fst (snd (fst rt)); randomSecond = snd (snd (fst rt));
          yyyy = padStart 4 (js_String year);
          mm = padStart 2 (js_String month);
          dd = padStart 2 (js_String day);
          hh = padStart 2 (js_String (int randomHour));
          min = padStart 2 (js_String (int randomMinute));
          ss = padStart 2 (js_String (int randomSecond))
      in (yyyy @ ''-'' @ mm @ ''-'' @ dd @ '' '' @ hh @ '':'' @ min @ '':'' @ ss, snd rt))"

text \<open>
  \<open>sent2\<close>, \<open>received\<close>, \<open>part000a\<close>, \<open>part000b\<close>:
  \<^verbatim>\<open>let adjustedHour = parseInt(hour);\<close>
  \<^verbatim>\<open>if (period === 'PM' && adjustedHour !== 12) adjustedHour += 12;\<close>
  \<^verbatim>\<open>if (period === 'AM' && adjustedHour === 12) adjustedHour = 0;\<close>
\<close>

definition to24Hour :: "nat \<Rightarrow> string \<Rightarrow> nat" where
  "to24Hour hour period =
     (let adjustedHour = hour;
          adjustedHour = (if period = ''PM'' \<and> adjustedHour \<noteq> 12 then adjustedHour + 12 else adjustedHour);
          adjustedHour = (if period = ''AM'' \<and> adjustedHour = 12 then 0 else adjustedHour)
      in adjustedHour)"

text \<open>
  \<^verbatim>\<open>const [month, day, year, hour, minute, period] = createdAtMatch[1].match(/.../).slice(1);\<close>
  throws a \<^verbatim>\<open>TypeError\<close> when the second match is \<^verbatim>\<open>null\<close>. In \<open>sent2\<close>, \<open>received\<close> and
  \<open>part000a\<close> the captured strings are put together as they are.
\<close>

definition createdAt_dateTime :: "string \<Rightarrow> error + string" where
  "createdAt_dateTime capture =
     (case match_js re_dateTimeParts capture of
        None \<Rightarrow> Inl TypeError
      | Some m \<Rightarrow>
          (let parts = slice_from m 1;
               month = parts ! 0; day = parts ! 1; year = parts ! 2;
               hour = parts ! 3; minute = parts ! 4; period = parts ! 5;
               adjustedHour = to24Hour (js_Number hour) period;
               yyyy = year;
               mm = padStart 2 month;
               dd = padStart 2 day;
               hh = padStart 2 (js_String (int adjustedHour));
               min = padStart 2 minute;
               ss = ''00''
           in Inr (yyyy @ ''-'' @ mm @ ''-'' @ dd @ '' '' @ hh @ '':'' @ min @ '':'' @ ss)))"

text \<open>
  \<open>part000b\<close>:
  \<^verbatim>\<open>const dateObj = new Date(year, month - 1, day, adjustedHour, minute);\<close>
  \<^verbatim>\<open>dateObj.setDate(dateObj.getDate() - 1);\<close>
\<close>

definition formatDate :: "js_date \<Rightarrow> string" where
  "formatDate dateObj =
     (let yyyy = js_String (dYear dateObj);
          mm = padStart 2 (js_String (dMonth dateObj + 1));
          dd = padStart 2 (js_String (dDate dateObj));
          hh = padStart 2 (js_String (dHours dateObj));
          min = padStart 2 (js_String (dMinutes dateObj));
          ss = padStart 2 (js_String (dSeconds dateObj))
      in yyyy @ ''-'' @ mm @ ''-'' @ dd @ '' '' @ hh @ '':'' @ min @ '':'' @ ss)"

definition createdAt_dateTime_dayEarlier :: "(js_date \<Rightarrow> js_date) \<Rightarrow> string \<Rightarrow> error + string" where
  "createdAt_dateTime_dayEarlier tz capture =
     (case match_js re_dateTimeParts capture of
        None \<Rightarrow> Inl TypeError
      | Some m \<Rightarrow>
          (let parts = slice_from m 1;
               month = parts ! 0; day = parts ! 1; year = parts ! 2;
               hour = parts ! 3; minute = parts ! 4; period = parts ! 5;
               adjustedHour = to24Hour (js_Number hour) period;
               dateObj = new_Date tz (int (js_Number year)) (int (js_Number month) - 1) (int (js_Number day))
                           (int adjustedHour) (int (js_Number minute));
               dateObj = setDate tz (dDate dateObj - 1) dateObj
           in Inr (formatDate dateObj)))"

subsection \<open>Fax numbers and physician names\<close>

text \<open>
  \<open>sent1\<close>, \<open>part000a\<close>, \<open>part000b\<close>, \<open>part001\<close>:
  \<^verbatim>\<open>const fromMatch = normalizedText.match(/Fax:\s*([0-9-]+)/i);\<close>
  \<^verbatim>\<open>if (fromMatch) { const cleanedFrom = fromMatch[1].replace(/\D/g, ''); record.from = formatPhoneNumber(cleanedFrom); }\<close>
\<close>

definition extract_from :: "string \<Rightarrow> string option" where
  "extract_from normalizedText =
     (case match_js re_fax normalizedText of
        Some fromMatch \<Rightarrow> Some (formatPhoneNumber (strip_non_digits (fromMatch ! 1)))
      | None \<Rightarrow> None)"

text \<open>
  \<open>sent2\<close>, \<open>received\<close>:
  \<^verbatim>\<open>const toMatch = normalizedText.match(/(?:Fax:|To:|FAX:|TO:)\s*([0-9\s\-]+)/i);\<close>
  \<^verbatim>\<open>if (toMatch) { const cleanedTo = toMatch[1].replace(/\D/g, ''); if (cleanedTo.length === 10) { record.to = formatPhoneNumber(cleanedTo); } }\<close>
\<close>

definition extract_to :: "string \<Rightarrow> string option" where
  "extract_to normalizedText =
     (case match_js re_to normalizedText of
        Some toMatch \<Rightarrow>
          (let cleanedTo = strip_non_digits (toMatch ! 1)
           in if length cleanedTo = 10 then Some (formatPhoneNumber cleanedTo) else None)
      | None \<Rightarrow> None)"

text \<open>
  \<open>received\<close>, \<open>part001\<close>: the pattern on \<^verbatim>\<open>PHYSICIAN INFORMATION\<close> first, and in its
  \<^verbatim>\<open>else\<close> branch the pattern on \<^verbatim>\<open>PHYSICIAN NAME\<close>. \<open>sent2\<close>: only the pattern on
  \<^verbatim>\<open>PHYSICIAN NAME\<close>.
\<close>

definition extract_sender_fallback :: "string \<Rightarrow> string option" where
  "extract_sender_fallback normalizedText =
     (case match_js re_physicianName normalizedText of
        Some fallbackMatch \<Rightarrow> Some (trim (fallbackMatch ! 1))
      | None \<Rightarrow> None)"

definition extract_sender :: "string \<Rightarrow> string option" where
  "extract_sender normalizedText =
     (case match_js re_physicianInformation normalizedText of
        Some senderMatch \<Rightarrow> Some (trim (senderMatch ! 1))
      | None \<Rightarrow> extract_sender_fallback normalizedText)"

subsection \<open>The six functions\<close>

definition validate :: "fax_record \<Rightarrow> string option \<Rightarrow> fax_record option" where
  "validate record party =
     (if truthy (rec_createdAt record) \<and> truthy party \<and> truthy (rec_sender record)
      then Some record else None)"

definition fields_sent1 :: "(js_date \<Rightarrow> js_date) \<Rightarrow> random_tape \<Rightarrow> string \<Rightarrow> fax_record \<times> random_tape" where
  "fields_sent1 tz tape text =
     (let normalizedText = collapse_ws text;
          record = sent_record;
          created = (case match_js re_examDate normalizedText of
                       Some createdAtMatch \<Rightarrow>
                         (Some (fst (createdAt_sent1 tz tape (createdAtMatch ! 1))),
                          snd (createdAt_sent1 tz tape (createdAtMatch ! 1)))
                     | None \<Rightarrow> (None, tape));
          record = record \<lparr> rec_createdAt := fst created \<rparr>;
          record = record \<lparr> rec_from := extract_from normalizedText \<rparr>
      in (record, snd created))"

definition parsePdfText_sent1 ::
    "(js_date \<Rightarrow> js_date) \<Rightarrow> random_tape \<Rightarrow> string \<Rightarrow> error + (fax_record option \<times> random_tape)" where
  "parsePdfText_sent1 tz tape text =
     (let rt = fields_sent1 tz tape text
      in Inr (validate (fst rt) (rec_from (fst rt)), snd rt))"

definition fields_dateTime ::
    "(string \<Rightarrow> error + string) \<Rightarrow> string \<Rightarrow> error + string option" where
  "fields_dateTime createdAt_of normalizedText =
     (case match_js re_dateTime normalizedText of
        Some createdAtMatch \<Rightarrow>
          (case createdAt_of (createdAtMatch ! 1) of Inl e \<Rightarrow> Inl e | Inr c \<Rightarrow> Inr (Some c))
      | None \<Rightarrow> Inr None)"

definition fields_sent2 :: "string \<Rightarrow> error + fax_record" where
  "fields_sent2 text =
     (let normalizedText = collapse_ws text;
          record = received_record
      in case fields_dateTime createdAt_dateTime normalizedText of
           Inl e \<Rightarrow> Inl e
         | Inr created \<Rightarrow>
             Inr (record \<lparr> rec_createdAt := created,
                           rec_to := extract_to normalizedText,
                           rec_sender := extract_sender_fallback normalizedText \<rparr>))"

definition parsePdfText_sent2 :: "string \<Rightarrow> error + fax_record option" where
  "parsePdfText_sent2 text =
     (case fields_sent2 text of Inl e \<Rightarrow> Inl e | Inr record \<Rightarrow> Inr (validate record (rec_to record)))"

definition fields_received :: "string \<Rightarrow> error + fax_record" where
  "fields_received text =
     (let normalizedText = collapse_ws text;
          record = received_record
      in case fields_dateTime createdAt_dateTime normalizedText of
           Inl e \<Rightarrow> Inl e
         | Inr created \<Rightarrow>
             Inr (record \<lparr> rec_createdAt := created,
                           rec_to := extract_to normalizedText,
                           rec_sender := extract_sender normalizedText \<rparr>))"

definition parsePdfText_received :: "string \<Rightarrow> error + fax_record option" where
  "parsePdfText_received text =
     (case fields_received text of Inl e \<Rightarrow> Inl e | Inr record \<Rightarrow> Inr (validate record (rec_to record)))"

definition fields_part000a :: "string \<Rightarrow> error + fax_record" where
  "fields_part000a text =
     (let normalizedText = collapse_ws text;
          record = sent_record
      in case fields_dateTime createdAt_dateTime normalizedText of
           Inl e \<Rightarrow> Inl e
         | Inr created \<Rightarrow>
             Inr (record \<lparr> rec_createdAt := created, rec_from := extract_from normalizedText \<rparr>))"

definition parsePdfText_part000a :: "string \<Rightarrow> error + fax_record option" where
  "parsePdfText_part000a text =
     (case fields_part000a text of Inl e \<Rightarrow> Inl e | Inr record \<Rightarrow> Inr (validate record (rec_from record)))"

definition fields_part000b :: "(js_date \<Rightarrow> js_date) \<Rightarrow> string \<Rightarrow> error + fax_record" where
  "fields_part000b tz text =
     (let normalizedText = collapse_ws text;
          record = sent_record
      in case fields_dateTime (createdAt_dateTime_dayEarlier tz) normalizedText of
           Inl e \<Rightarrow> Inl e
         | Inr created \<Rightarrow>
             Inr (record \<lparr> rec_createdAt := created, rec_from := extract_from normalizedText \<rparr>))"

definition parsePdfText_part000b :: "(js_date \<Rightarrow> js_date) \<Rightarrow> string \<Rightarrow> error + fax_record option" where
  "parsePdfText_part000b tz text =
     (case fields_part000b tz text of Inl e \<Rightarrow> Inl e | Inr record \<Rightarrow> Inr (validate record (rec_from record)))"

text \<open>
  \<open>part001\<close>: \<^verbatim>\<open>const dateObj = new Date(dateStr); if (!isNaN(dateObj)) { ... }\<close>. How the
  \<^verbatim>\<open>Date\<close> constructor reads a string that is not in the ISO format is left to the
  engine; it is the parameter \<open>dateParse\<close>, with \<open>None\<close> for an invalid date.
\<close>

definition fields_part001 :: "(string \<Rightarrow> js_date option) \<Rightarrow> string \<Rightarrow> fax_record" where
  "fields_part001 dateParse text =
     (let normalizedText = collapse_ws text;
          record = received_record_part001;
          created = (case match_js re_dateTimePM normalizedText of
                       Some createdAtMatch \<Rightarrow>
                         (case dateParse (createdAtMatch ! 1) of
                            Some dateObj \<Rightarrow> Some (formatDate dateObj)
                          | None \<Rightarrow> None)
                     | None \<Rightarrow> None)
      in record \<lparr> rec_createdAt := created,
                  rec_from := extract_from normalizedText,
                  rec_sender := extract_sender normalizedText \<rparr>)"

definition parsePdfText_part001 :: "(string \<Rightarrow> js_date option) \<Rightarrow> string \<Rightarrow> fax_record option" where
  "parsePdfText_part001 dateParse text =
     validate (fields_part001 dateParse text) (rec_from (fields_part001 dateParse text))"

section \<open>batchUpload\<close>

text \<open>
  \<^verbatim>\<open>for (let i = 0; i < records.length; i += batchSize) { const batch = records.slice(i, i + batchSize); try { await axios.post(...) } catch (error) { ... } }\<close>

  The remote sink is a parameter \<open>post\<close> telling whether the request for a batch
  succeeds; a failure is caught inside the loop body and only logged. The model returns
  the requests made, in order, each with its outcome. The loop does not terminate when
  \<open>batchSize\<close> is \<open>0\<close>, which is the value \<open>None\<close> here.
\<close>

partial_function (option) batchUploadFrom ::
    "('r list \<Rightarrow> bool) \<Rightarrow> 'r list \<Rightarrow> nat \<Rightarrow> nat \<Rightarrow> ('r list \<times> bool) list option" where
  "batchUploadFrom post records batchSize i =
     (if i < length records
      then Option.bind (batchUploadFrom post records batchSize (i + batchSize))
             (\<lambda>rest. Some ((slice records i (i + batchSize),
                             post (slice records i (i + batchSize))) # rest))
      else Some [])"

definition batchUpload ::
    "('r list \<Rightarrow> bool) \<Rightarrow> 'r list \<Rightarrow> nat \<Rightarrow> ('r list \<times> bool) list option" where
  "batchUpload post records batchSize = batchUploadFrom post records batchSize 0"

section \<open>Files, folders and the run of a script\<close>

text \<open>
  The three folders \<^verbatim>\<open>pdf_files/\<close>, \<^verbatim>\<open>processed/\<close> and the folder of failed uploads are
  the lists of the file names they hold, in directory order. Everything outside the
  scripts is a parameter of the model:
  \<^item> \<open>fileData\<close>: the bytes \<^verbatim>\<open>fs.readFileSync\<close> returns for a file of \<^verbatim>\<open>pdf_files/\<close>, \<open>None\<close>
    when the read throws;
  \<^item> \<open>pdfParse\<close>: the text \<^verbatim>\<open>pdf-parse\<close> extracts from the bytes, \<open>None\<close> when it throws;
  \<^item> \<open>base64\<close>: the encoding of the bytes;
  \<^item> \<open>renameFails\<close>: whether moving a file into a folder throws (permissions, disk);
  \<^item> \<open>postOk\<close>: whether the request for a list of records succeeds;
  \<^item> \<open>dateParse\<close>: the \<^verbatim>\<open>Date\<close> constructor on a string;
  \<^item> \<open>localTime\<close>: the time zone of the host, as in the section on dates.
\<close>

record fsys =
  incoming :: "string list"
  processed :: "string list"
  failed :: "string list"

datatype folder = ProcessedFolder | FailedFolder

record world =
  fileData :: "string \<Rightarrow> string option"
  pdfParse :: "string \<Rightarrow> string option"
  base64 :: "string \<Rightarrow> string"
  renameFails :: "folder \<Rightarrow> string \<Rightarrow> bool"
  postOk :: "fax_record list \<Rightarrow> bool"
  dateParse :: "string \<Rightarrow> js_date option"
  localTime :: "js_date \<Rightarrow> js_date"

definition readFileSync :: "world \<Rightarrow> fsys \<Rightarrow> string \<Rightarrow> string option" where
  "readFileSync w fs file = (if file \<in> set (incoming fs) then fileData w file else None)"

text \<open>
  \<^verbatim>\<open>try { const dataBuffer = fs.readFileSync(filePath); const data = await pdfParse(dataBuffer); return data.text; } catch (error) { return null; }\<close>
\<close>

definition extractPdfText :: "world \<Rightarrow> fsys \<Rightarrow> string \<Rightarrow> string option" where
  "extractPdfText w fs file =
     (case readFileSync w fs file of None \<Rightarrow> None | Some dataBuffer \<Rightarrow> pdfParse w dataBuffer)"

text \<open>\<^verbatim>\<open>fileToBase64\<close> has no \<^verbatim>\<open>try\<close>: a failed read is an exception, here \<open>None\<close>.\<close>

definition fileToBase64 :: "world \<Rightarrow> fsys \<Rightarrow> string \<Rightarrow> string option" where
  "fileToBase64 w fs file = map_option (base64 w) (readFileSync w fs file)"

text \<open>
  \<^verbatim>\<open>fs.renameSync(path.join(pdfFolder, file), path.join(folder, file))\<close>: \<open>None\<close> when it
  throws, which it does when the file is not in \<^verbatim>\<open>pdf_files/\<close>; a file of the same name
  in the target folder is replaced.
\<close>

definition renameSync :: "world \<Rightarrow> fsys \<Rightarrow> string \<Rightarrow> folder \<Rightarrow> fsys option" where
  "renameSync w fs file target =
     (if file \<in> set (incoming fs) \<and> \<not> renameFails w target file
      then Some (case target of
                   ProcessedFolder \<Rightarrow>
                     fs \<lparr> incoming := removeAll file (incoming fs),
                          processed := List.insert file (processed fs) \<rparr>
                 | FailedFolder \<Rightarrow>
                     fs \<lparr> incoming := removeAll file (incoming fs),
                          failed := List.insert file (failed fs) \<rparr>)
      else None)"

text \<open>\<^verbatim>\<open>try { fs.renameSync(...); } catch (error) { console.error(...); }\<close>\<close>

definition tryRename :: "world \<Rightarrow> fsys \<Rightarrow> string \<Rightarrow> folder \<Rightarrow> fsys" where
  "tryRename w fs file target =
     (case renameSync w fs file target of Some fs' \<Rightarrow> fs' | None \<Rightarrow> fs)"

subsection \<open>prepareRecordsForUpload\<close>

text \<open>
  A parser takes the tape of random draws and the text, and returns the record or
  \<^verbatim>\<open>null\<close> and the rest of the tape, or the exception it throws.
\<close>

type_synonym parser = "random_tape \<Rightarrow> string \<Rightarrow> error + (fax_record option \<times> random_tape)"

definition no_random :: "(string \<Rightarrow> error + fax_record option) \<Rightarrow> parser" where
  "no_random parse tape text =
     (case parse text of Inl e \<Rightarrow> Inl e | Inr r \<Rightarrow> Inr (r, tape))"

text \<open>
  The body of the loop up to \<^verbatim>\<open>records.push(record)\<close>:
  \<^verbatim>\<open>const pdfText = await extractPdfText(filePath);\<close>
  \<^verbatim>\<open>if (pdfText) { const record = parsePdfText(pdfText); if (record) { record.attachment = fileToBase64(filePath); record.file_extension = 'pdf'; records.push(record); ... } else ... } else ...\<close>
  The result is the record to push, or \<open>None\<close> when the file yields none.
\<close>

definition recordOfFile ::
    "parser \<Rightarrow> world \<Rightarrow> fsys \<Rightarrow> random_tape \<Rightarrow> string \<Rightarrow> error + (fax_record option \<times> random_tape)" where
  "recordOfFile parse w fs tape file =
     (case extractPdfText w fs file of
        None \<Rightarrow> Inr (None, tape)
      | Some pdfText \<Rightarrow>
          if pdfText = [] then Inr (None, tape)
          else (case parse tape pdfText of
                  Inl e \<Rightarrow> Inl e
                | Inr (None, tape') \<Rightarrow> Inr (None, tape')
                | Inr (Some record, tape') \<Rightarrow>
                    (case fileToBase64 w fs file of
                       None \<Rightarrow> Inl ReadError
                     | Some a \<Rightarrow>
                         Inr (Some (record \<lparr> rec_attachment := Some a,
                                            rec_file_extension := Some ''pdf'' \<rparr>), tape'))))"

text \<open>
  The loop of the scripts that keep a list \<^verbatim>\<open>failedFiles\<close> (\<open>sent1\<close>, \<open>sent2\<close>,
  \<open>part000a\<close>, \<open>part000b\<close>). An exception leaves the loop with the folders as they are
  at that moment.
\<close>

fun prepareLoop_listed ::
    "parser \<Rightarrow> world \<Rightarrow> string list \<Rightarrow> fax_record list \<Rightarrow> string list \<Rightarrow> fsys \<Rightarrow> random_tape
       \<Rightarrow> (error \<times> fsys) + (fax_record list \<times> string list \<times> fsys \<times> random_tape)" where
  "prepareLoop_listed parse w [] records failedFiles fs tape = Inr (records, failedFiles, fs, tape)"
| "prepareLoop_listed parse w (file # files) records failedFiles fs tape =
     (case recordOfFile parse w fs tape file of
        Inl e \<Rightarrow> Inl (e, fs)
      | Inr (Some record, tape') \<Rightarrow>
          prepareLoop_listed parse w files (records @ [record]) failedFiles
            (tryRename w fs file ProcessedFolder) tape'
      | Inr (None, tape') \<Rightarrow>
          prepareLoop_listed parse w files records (failedFiles @ [file]) fs tape')"

text \<open>\<^verbatim>\<open>for (const file of failedFiles) { try { fs.renameSync(..., failedPath); } catch (error) { ... } }\<close>\<close>

fun moveToFailed :: "world \<Rightarrow> string list \<Rightarrow> fsys \<Rightarrow> fsys" where
  "moveToFailed w [] fs = fs"
| "moveToFailed w (file # files) fs = moveToFailed w files (tryRename w fs file FailedFolder)"

definition prepareRecordsForUpload_listed ::
    "parser \<Rightarrow> world \<Rightarrow> string list \<Rightarrow> fsys \<Rightarrow> random_tape
       \<Rightarrow> (error \<times> fsys) + (fax_record list \<times> fsys \<times> random_tape)" where
  "prepareRecordsForUpload_listed parse w pdfFiles fs tape =
     (case prepareLoop_listed parse w pdfFiles [] [] fs tape of
        Inl e \<Rightarrow> Inl e
      | Inr (records, failedFiles, fs', tape') \<Rightarrow> Inr (records, moveToFailed w failedFiles fs', tape'))"

text \<open>The loop of the scripts without such a list (\<open>received\<close>, \<open>part001\<close>).\<close>

fun prepareRecordsForUpload_plain ::
    "parser \<Rightarrow> world \<Rightarrow> string list \<Rightarrow> fax_record list \<Rightarrow> fsys \<Rightarrow> random_tape
       \<Rightarrow> (error \<times> fsys) + (fax_record list \<times> fsys \<times> random_tape)" where
  "prepareRecordsForUpload_plain parse w [] records fs tape = Inr (records, fs, tape)"
| "prepareRecordsForUpload_plain parse w (file # files) records fs tape =
     (case recordOfFile parse w fs tape file of
        Inl e \<Rightarrow> Inl (e, fs)
      | Inr (Some record, tape') \<Rightarrow>
          prepareRecordsForUpload_plain parse w files (records @ [record])
            (tryRename w fs file ProcessedFolder) tape'
      | Inr (None, tape') \<Rightarrow>
          prepareRecordsForUpload_plain parse w files records fs tape')"

subsection \<open>main\<close>

definition endsWith :: "string \<Rightarrow> string \<Rightarrow> bool" where
  "endsWith s suffix = (length suffix \<le> length s \<and> drop (length s - length suffix) s = suffix)"

definition listPdfFiles :: "fsys \<Rightarrow> string list" where
  "listPdfFiles fs = filter (\<lambda>file. endsWith file ''.pdf'') (incoming fs)"

text \<open>
  \<^verbatim>\<open>moveFailedFiles\<close> of \<^verbatim>\<open>received.js\<close>: every \<^verbatim>\<open>.pdf\<close> file still in \<^verbatim>\<open>pdf_files/\<close> is
  moved to the folder of failed uploads.
\<close>

definition moveFailedFiles :: "world \<Rightarrow> fsys \<Rightarrow> fsys" where
  "moveFailedFiles w fs = moveToFailed w (listPdfFiles fs) fs"

text \<open>\<^verbatim>\<open>bulkUpload\<close> of \<^verbatim>\<open>received.js\<close> and \<^verbatim>\<open>part_001\<close>: one request with all records.\<close>

definition bulkUpload :: "world \<Rightarrow> fax_record list \<Rightarrow> (fax_record list \<times> bool) list" where
  "bulkUpload w records = [(records, postOk w records)]"

text \<open>
  The result of a run: the folders at the end, the requests made with their outcomes,
  and the exception caught by the \<^verbatim>\<open>try\<close> of \<^verbatim>\<open>main\<close>, if any. A run that does not
  terminate is \<open>None\<close>.
\<close>

record run =
  folders :: fsys
  uploads :: "(fax_record list \<times> bool) list"
  caught :: "error option"

text \<open>\<open>sent1\<close>, \<open>part000a\<close>, \<open>part000b\<close>: prepare, then \<^verbatim>\<open>batchUpload(recordsForUpload, 100)\<close>.\<close>

definition main_batch :: "parser \<Rightarrow> world \<Rightarrow> fsys \<Rightarrow> random_tape \<Rightarrow> run option" where
  "main_batch parse w fs tape =
     (case prepareRecordsForUpload_listed parse w (listPdfFiles fs) fs tape of
        Inl (e, fs') \<Rightarrow> Some \<lparr> folders = fs', uploads = [], caught = Some e \<rparr>
      | Inr (recordsForUpload, fs', tape') \<Rightarrow>
          if recordsForUpload \<noteq> []
          then (case batchUpload (postOk w) recordsForUpload 100 of
                  None \<Rightarrow> None
                | Some requests \<Rightarrow> Some \<lparr> folders = fs', uploads = requests, caught = None \<rparr>)
          else Some \<lparr> folders = fs', uploads = [], caught = None \<rparr>)"

definition main_sent1 :: "world \<Rightarrow> fsys \<Rightarrow> random_tape \<Rightarrow> run option" where
  "main_sent1 w = main_batch (parsePdfText_sent1 (localTime w)) w"

definition main_part000a :: "world \<Rightarrow> fsys \<Rightarrow> random_tape \<Rightarrow> run option" where
  "main_part000a = main_batch (no_random parsePdfText_part000a)"

definition main_part000b :: "world \<Rightarrow> fsys \<Rightarrow> random_tape \<Rightarrow> run option" where
  "main_part000b w = main_batch (no_random (parsePdfText_part000b (localTime w))) w"

text \<open>
  \<open>sent2\<close>: the same, followed by the call \<^verbatim>\<open>moveFailedFiles()\<close> of a function this
  script does not define: a \<^verbatim>\<open>ReferenceError\<close>, caught by the \<^verbatim>\<open>try\<close> of \<^verbatim>\<open>main\<close>.
\<close>

definition main_sent2 :: "world \<Rightarrow> fsys \<Rightarrow> random_tape \<Rightarrow> run option" where
  "main_sent2 w fs tape =
     (case main_batch (no_random parsePdfText_sent2) w fs tape of
        None \<Rightarrow> None
      | Some r \<Rightarrow> Some (case caught r of Some e \<Rightarrow> r | None \<Rightarrow> r \<lparr> caught := Some ReferenceError \<rparr>))"

text \<open>\<open>received\<close>: prepare, \<^verbatim>\<open>bulkUpload\<close>, then \<^verbatim>\<open>moveFailedFiles()\<close>.\<close>

definition main_received :: "world \<Rightarrow> fsys \<Rightarrow> random_tape \<Rightarrow> run option" where
  "main_received w fs tape =
     (case prepareRecordsForUpload_plain (no_random parsePdfText_received) w (listPdfFiles fs) [] fs tape of
        Inl (e, fs') \<Rightarrow> Some \<lparr> folders = fs', uploads = [], caught = Some e \<rparr>
      | Inr (recordsForUpload, fs', tape') \<Rightarrow>
          Some \<lparr> folders = moveFailedFiles w fs',
                 uploads = (if recordsForUpload \<noteq> [] then bulkUpload w recordsForUpload else []),
                 caught = None \<rparr>)"

text \<open>\<open>part001\<close>: prepare and \<^verbatim>\<open>bulkUpload\<close>; the script has no folder of failed uploads.\<close>

definition main_part001 :: "world \<Rightarrow> fsys \<Rightarrow> random_tape \<Rightarrow> run option" where
  "main_part001 w fs tape =
     (case prepareRecordsForUpload_plain
             (no_random (\<lambda>text. Inr (parsePdfText_part001 (dateParse w) text))) w (listPdfFiles fs) [] fs tape of
        Inl (e, fs') \<Rightarrow> Some \<lparr> folders = fs', uploads = [], caught = Some e \<rparr>
      | Inr (recordsForUpload, fs', tape') \<Rightarrow>
          Some \<lparr> folders = fs',
                 uploads = (if recordsForUpload \<noteq> [] then bulkUpload w recordsForUpload else []),
                 caught = None \<rparr>)"

section \<open>Notions used in the statements\<close>

subsection \<open>Text matched by a pattern\<close>

text \<open>
  \<open>item_ok\<close> says which text a part of a pattern can match; \<open>delimited\<close> holds of a
  pattern in which every quantified class either has a fixed length or is followed by a
  literal beginning with a character outside the class, so that the text fixes how it is
  divided among the parts.
\<close>

definition lit_ok :: "bool \<Rightarrow> string \<Rightarrow> string \<Rightarrow> bool" where
  "lit_ok ci l t = (length t = length l \<and> lit_match ci l t)"

fun item_ok :: "bool \<Rightarrow> item \<Rightarrow> string \<Rightarrow> bool" where
  "item_ok ci (Lit l) t = lit_ok ci l t"
| "item_ok ci (Rep P lo hi) t =
     (lo \<le> length t \<and> (case hi of None \<Rightarrow> True | Some h \<Rightarrow> length t \<le> h) \<and> list_all (cls_match ci P) t)"
| "item_ok ci (Alt ls) t = (\<exists>l \<in> set ls. lit_ok ci l t)"

fun delimited :: "bool \<Rightarrow> item list \<Rightarrow> bool" where
  "delimited ci [] = True"
| "delimited ci (Lit l # is) = delimited ci is"
| "delimited ci (Rep P lo hi # is) =
     ((hi = Some lo \<or>
       (case is of Lit (c # l) # is' \<Rightarrow> \<forall>c'. char_eq ci c c' \<longrightarrow> \<not> cls_match ci P c' | _ \<Rightarrow> False))
      \<and> delimited ci is)"
| "delimited ci (Alt ls # is) = False"

definition digits :: "string \<Rightarrow> bool" where
  "digits s = list_all is_digit s"

definition timestamp_fields :: "(char \<Rightarrow> bool) \<Rightarrow> string \<Rightarrow> string \<Rightarrow> string \<Rightarrow> string \<Rightarrow> string \<Rightarrow> string \<Rightarrow> bool" where
  "timestamp_fields period mo d y h mi p =
     (digits mo \<and> 1 \<le> length mo \<and> length mo \<le> 2 \<and>
      digits d \<and> 1 \<le> length d \<and> length d \<le> 2 \<and>
      digits y \<and> length y = 4 \<and>
      digits h \<and> 1 \<le> length h \<and> length h \<le> 2 \<and>
      digits mi \<and> length mi = 2 \<and>
      length p = 1 \<and> list_all period p)"

definition timestamp_text :: "string \<Rightarrow> string \<Rightarrow> string \<Rightarrow> string \<Rightarrow> string \<Rightarrow> string \<Rightarrow> string" where
  "timestamp_text mo d y h mi p = mo @ ''/'' @ d @ ''/'' @ y @ '' '' @ h @ '':'' @ mi @ '' '' @ p @ ''M''"

definition date_fields :: "string \<Rightarrow> string \<Rightarrow> string \<Rightarrow> bool" where
  "date_fields mo d y =
     (digits mo \<and> 1 \<le> length mo \<and> length mo \<le> 2 \<and>
      digits d \<and> 1 \<le> length d \<and> length d \<le> 2 \<and>
      digits y \<and> length y = 4)"


subsection \<open>The calendar\<close>

text \<open>The day before a date of the Gregorian calendar, as the calendar defines it.\<close>

definition previous_day :: "int \<Rightarrow> int \<Rightarrow> int \<Rightarrow> int \<times> int \<times> int" where
  "previous_day month day year =
     (if 1 < day then (month, day - 1, year)
      else if 1 < month then (month - 1, days_in_month year (month - 1), year)
      else (12, 31, year - 1))"

subsection \<open>Folders and files\<close>

text \<open>
  \<open>folders_ok\<close>: a directory lists a name once and the three folders hold different
  names. \<open>extraction\<close> is the text \<^verbatim>\<open>extractPdfText\<close> returns for a file that is in
  \<^verbatim>\<open>pdf_files/\<close>. A parser \<open>never_throws\<close> when it returns a record or \<^verbatim>\<open>null\<close> on every
  text; the text is \<open>parse_null\<close> when the parser returns \<^verbatim>\<open>null\<close> on it whatever the
  random draws; \<open>file_fails\<close> when the extraction fails, gives the empty text, or gives a
  text on which the parser returns \<^verbatim>\<open>null\<close>.
\<close>

definition folders_ok :: "fsys \<Rightarrow> bool" where
  "folders_ok fs =
     (distinct (incoming fs)
      \<and> set (incoming fs) \<inter> set (processed fs) = {}
      \<and> set (incoming fs) \<inter> set (failed fs) = {}
      \<and> set (processed fs) \<inter> set (failed fs) = {})"

definition extraction :: "world \<Rightarrow> string \<Rightarrow> string option" where
  "extraction w file = (case fileData w file of None \<Rightarrow> None | Some dataBuffer \<Rightarrow> pdfParse w dataBuffer)"

definition never_throws :: "parser \<Rightarrow> bool" where
  "never_throws parse = (\<forall>tape text. \<exists>r. parse tape text = Inr r)"

definition parse_null :: "parser \<Rightarrow> string \<Rightarrow> bool" where
  "parse_null parse text = (\<forall>tape. \<exists>tape'. parse tape text = Inr (None, tape'))"

definition file_fails :: "parser \<Rightarrow> world \<Rightarrow> string \<Rightarrow> bool" where
  "file_fails parse w file =
     (case extraction w file of None \<Rightarrow> True | Some text \<Rightarrow> text = [] \<or> parse_null parse text)"

text \<open>
  \<open>collectRecords\<close> runs extraction and parsing over the files with the folders held
  fixed: the records, the files without a record and the tape left, none of which refers
  to a relocation.
\<close>

fun collectRecords ::
    "parser \<Rightarrow> world \<Rightarrow> fsys \<Rightarrow> random_tape \<Rightarrow> string list \<Rightarrow> fax_record list \<times> string list \<times> random_tape" where
  "collectRecords parse w fs0 tape [] = ([], [], tape)"
| "collectRecords parse w fs0 tape (file # files) =
     (case recordOfFile parse w fs0 tape file of
        Inl e \<Rightarrow> ([], [], tape)
      | Inr (Some record, tape') \<Rightarrow>
          (record # fst (collectRecords parse w fs0 tape' files),
           fst (snd (collectRecords parse w fs0 tape' files)),
           snd (snd (collectRecords parse w fs0 tape' files)))
      | Inr (None, tape') \<Rightarrow>
          (fst (collectRecords parse w fs0 tape' files),
           file # fst (snd (collectRecords parse w fs0 tape' files)),
           snd (snd (collectRecords parse w fs0 tape' files))))"

subsection \<open>The six scripts\<close>

datatype script = Sent1 | Sent2 | Received | Part000a | Part000b | Part001

definition parser_of :: "script \<Rightarrow> world \<Rightarrow> parser" where
  "parser_of s w =
     (case s of
        Sent1 \<Rightarrow> parsePdfText_sent1 (localTime w)
      | Sent2 \<Rightarrow> no_random parsePdfText_sent2
      | Received \<Rightarrow> no_random parsePdfText_received
      | Part000a \<Rightarrow> no_random parsePdfText_part000a
      | Part000b \<Rightarrow> no_random (parsePdfText_part000b (localTime w))
      | Part001 \<Rightarrow> no_random (\<lambda>text. Inr (parsePdfText_part001 (dateParse w) text)))"

definition main :: "script \<Rightarrow> world \<Rightarrow> fsys \<Rightarrow> random_tape \<Rightarrow> run option" where
  "main s =
     (case s of
        Sent1 \<Rightarrow> main_sent1
      | Sent2 \<Rightarrow> main_sent2
      | Received \<Rightarrow> main_received
      | Part000a \<Rightarrow> main_part000a
      | Part000b \<Rightarrow> main_part000b
      | Part001 \<Rightarrow> main_part001)"

text \<open>All the records sent in a run, in order.\<close>

definition uploaded :: "run \<Rightarrow> fax_record list" where
  "uploaded r = concat (map fst (uploads r))"


text \<open>
  The field of a record that the script reads from the text (\<open>to\<close> in \<open>sent2\<close> and
  \<open>received\<close>, \<open>from\<close> in the others), and the test at the end of \<^verbatim>\<open>parsePdfText\<close>.
\<close>

definition party_field :: "script \<Rightarrow> fax_record \<Rightarrow> string option" where
  "party_field s r = (case s of Sent2 \<Rightarrow> rec_to r | Received \<Rightarrow> rec_to r | _ \<Rightarrow> rec_from r)"

definition valid_record :: "script \<Rightarrow> fax_record \<Rightarrow> bool" where
  "valid_record s r = (truthy (rec_createdAt r) \<and> truthy (party_field s r) \<and> truthy (rec_sender r))"

text \<open>What a script uploads for a list of records.\<close>

definition requests_for :: "world \<Rightarrow> fax_record list \<Rightarrow> (fax_record list \<times> bool) list option" where
  "requests_for w records = (if records \<noteq> [] then batchUpload (postOk w) records 100 else Some [])"

definition bulk_for :: "world \<Rightarrow> fax_record list \<Rightarrow> (fax_record list \<times> bool) list" where
  "bulk_for w records = (if records \<noteq> [] then bulkUpload w records else [])"

text \<open>
  The record a script has built when it reaches the test at the end of \<^verbatim>\<open>parsePdfText\<close>
  (\<open>None\<close> if an exception is thrown before), and what the statements below call a field
  that is present: neither \<^verbatim>\<open>null\<close> nor the empty string.
\<close>

definition candidate :: "script \<Rightarrow> world \<Rightarrow> random_tape \<Rightarrow> string \<Rightarrow> fax_record option" where
  "candidate s w tape t0 =
     (case s of
        Sent1 \<Rightarrow> Some (fst (fields_sent1 (localTime w) tape t0))
      | Sent2 \<Rightarrow> (case fields_sent2 t0 of Inl e \<Rightarrow> None | Inr c \<Rightarrow> Some c)
      | Received \<Rightarrow> (case fields_received t0 of Inl e \<Rightarrow> None | Inr c \<Rightarrow> Some c)
      | Part000a \<Rightarrow> (case fields_part000a t0 of Inl e \<Rightarrow> None | Inr c \<Rightarrow> Some c)
      | Part000b \<Rightarrow> (case fields_part000b (localTime w) t0 of Inl e \<Rightarrow> None | Inr c \<Rightarrow> Some c)
      | Part001 \<Rightarrow> Some (fields_part001 (dateParse w) t0))"

definition present :: "string option \<Rightarrow> bool" where
  "present v = (v \<noteq> None \<and> v \<noteq> Some [])"

definition all_present :: "script \<Rightarrow> fax_record \<Rightarrow> bool" where
  "all_present s r = (present (rec_createdAt r) \<and> present (party_field s r) \<and> present (rec_sender r))"

text \<open>
  The value of \<open>createdAt\<close> that the scripts put together from the parts of a timestamp
  and the hour on the 24-hour clock, and equality of two strings up to the case of
  their letters, as the \<^verbatim>\<open>i\<close> flag of a pattern compares them.
\<close>

definition createdAt_text :: "string \<Rightarrow> string \<Rightarrow> string \<Rightarrow> nat \<Rightarrow> string \<Rightarrow> string" where
  "createdAt_text y mo d hour mi =
     y @ ''-'' @ padStart 2 mo @ ''-'' @ padStart 2 d @ '' '' @ padStart 2 (js_String (int hour)) @ '':'' @ mi @ '':00''"




subsection \<open>Sample inputs\<close>

text \<open>
  A folder with a file whose text has no fax number (\<open>a.pdf\<close>), a file with every field
  (\<open>b.pdf\<close>), a file that cannot be read (\<open>c.pdf\<close>) and a file that is not a PDF.
\<close>

definition sample_text_a :: string where
  "sample_text_a = ''3/15/2024 1:05 PM PHYSICIAN NAME: A B''"

definition sample_text_b :: string where
  "sample_text_b = ''Exam Date: 3/15/2024 1:05 PM Fax: 207-555-1234 PHYSICIAN NAME: A B''"

definition sample_date :: js_date where
  "sample_date = \<lparr> dYear = 2024, dMonth = 2, dDate = 15, dHours = 13, dMinutes = 5, dSeconds = 0 \<rparr>"

definition sample_world :: world where
  "sample_world = \<lparr>
     fileData = (\<lambda>file. if file = ''c.pdf'' then None else Some file),
     pdfParse = (\<lambda>bytes. if bytes = ''a.pdf'' then Some sample_text_a else Some sample_text_b),
     base64 = (\<lambda>bytes. bytes),
     renameFails = (\<lambda>target file. False),
     postOk = (\<lambda>records. True),
     dateParse = (\<lambda>s. Some sample_date),
     localTime = (\<lambda>d. d) \<rparr>"

definition sample_folders :: fsys where
  "sample_folders = \<lparr> incoming = [''a.pdf'', ''b.pdf'', ''c.pdf'', ''notes.txt''], processed = [], failed = [] \<rparr>"

definition sample_tape :: random_tape where
  "sample_tape = (\<lambda>i. 0)"

definition blocked :: "folder \<Rightarrow> string \<Rightarrow> bool" where
  "blocked target file = True"

text \<open>A text whose fax number has no digit, and the records read from the sample texts.\<close>

definition sample_text_dash :: string where
  "sample_text_dash = ''3/15/2024 1:05 PM Fax: -''"

definition sample_record_dash :: fax_record where
  "sample_record_dash = sent_record \<lparr> rec_createdAt := Some ''2024-03-15 13:05:00'', rec_from := Some [] \<rparr>"

definition sample_record_b :: fax_record where
  "sample_record_b = \<lparr> rec_type = ''Received'', rec_to = Some ''(207) 555 - 1234'',
     rec_from = Some ''(207) 261 - 0798'',
     rec_subject = ''PRIOR AUTHORIZATION PRESCRIPTION REQUEST'',
     rec_sender = Some ''A B'', rec_createdAt = Some ''2024-03-15 13:05:00'',
     rec_attachment = None, rec_file_extension = None \<rparr>"

text \<open>
  The record \<open>part001\<close> reads from the second sample text, and a folder state in which
  \<^verbatim>\<open>processed/\<close> already holds a file named like one that arrives.
\<close>

definition sample_folders_again :: fsys where
  "sample_folders_again = \<lparr> incoming = [''c.pdf''], processed = [''c.pdf''], failed = [] \<rparr>"


definition sample_record_b001 :: fax_record where
  "sample_record_b001 = \<lparr> rec_type = ''Received'', rec_to = Some ''(207) 261 - 0798'',
     rec_from = Some ''(207) 555 - 1234'',
     rec_subject = ''PRIOR AUTHORIZATION PRESCRIPTION REQUEST'',
     rec_sender = Some ''A B'', rec_createdAt = Some ''2024-03-15 13:05:00'',
     rec_attachment = None, rec_file_extension = None \<rparr>"

text \<open>A text with a morning timestamp, and one with a \<^verbatim>\<open>PHYSICIAN INFORMATION\<close> block.\<close>

definition sample_text_am :: string where
  "sample_text_am = ''3/15/2024 1:05 AM Fax: 207-555-1234 PHYSICIAN NAME: A B''"



section \<open>Properties of the matcher\<close>

lemma first_some_SomeD: "first_some f xs = Some r \<Longrightarrow> \<exists>x \<in> set xs. f x = Some r"
  by (induction xs) (auto split: option.splits)

lemma first_some_Cons_Some: "f x = Some r \<Longrightarrow> first_some f (x # xs) = Some r"
  by simp

lemma lit_match_length: "lit_match ci l s \<Longrightarrow> length l \<le> length s"
  by (induction ci l s rule: lit_match.induct) auto

lemma lit_match_take: "lit_match ci l s \<Longrightarrow> lit_match ci l (take (length l) s)"
  by (induction ci l s rule: lit_match.induct) auto

lemma lit_match_append: "lit_match ci l t \<Longrightarrow> lit_match ci l (t @ x)"
  by (induction ci l t rule: lit_match.induct) auto

lemma lit_ok_take: "lit_match ci l s \<Longrightarrow> lit_ok ci l (take (length l) s)"
  by (simp add: lit_ok_def lit_match_take lit_match_length min_absorb2)

lemma lit_step_SomeD:
  assumes "lit_step ci k s l = Some ts"
  shows "\<exists>ts'. ts = take (length l) s # ts' \<and> k (drop (length l) s) = Some ts' \<and> lit_ok ci l (take (length l) s)"
  using assms by (auto simp: lit_step_def lit_ok_take split: if_splits)

lemma rep_max_le: "rep_max ci P hi s \<le> length (takeWhile (cls_match ci P) s)"
  by (simp add: rep_max_def Let_def split: option.splits)

lemma rep_max_hi: "hi = Some h \<Longrightarrow> rep_max ci P hi s \<le> h"
  by (simp add: rep_max_def Let_def)

lemma take_takeWhile_all:
  assumes "k \<le> length (takeWhile Q s)"
  shows "list_all Q (take k s)" "length (take k s) = k"
proof -
  have "take k s = take k (takeWhile Q s)"
    using assms by (metis append_eq_conv_conj take_append takeWhile_dropWhile_id diff_is_0_eq' take_0 append_Nil2 length_take min_absorb2 take_all_iff take_take)
  then show "list_all Q (take k s)"
    by (metis list_all_iff set_takeWhileD in_set_takeD)
  show "length (take k s) = k"
    using assms length_takeWhile_le [of Q s] by (simp add: min_absorb2)
qed

lemma rmatch_sound:
  "rmatch is ci s = Some ts \<Longrightarrow> list_all2 (item_ok ci) is ts \<and> (\<exists>rest. s = concat ts @ rest)"
proof (induction "is" arbitrary: s ts)
  case Nil
  then show ?case by simp
next
  case (Cons i "is")
  show ?case
  proof (cases i)
    case (Lit l)
    with Cons.prems have "lit_step ci (rmatch is ci) s l = Some ts" by simp
    from lit_step_SomeD [OF this] obtain ts' where
      t: "ts = take (length l) s # ts'" "rmatch is ci (drop (length l) s) = Some ts'"
         "lit_ok ci l (take (length l) s)" by blast
    from Cons.IH [OF t(2)] obtain rest where
      r: "list_all2 (item_ok ci) is ts'" "drop (length l) s = concat ts' @ rest" by blast
    have "s = concat ts @ rest"
      using t(1) r(2) by (metis append.assoc append_take_drop_id concat.simps(2))
    then show ?thesis using Lit t r by auto
  next
    case (Rep P lo hi)
    with Cons.prems have
      "first_some (rep_step (rmatch is ci) s) (rev [lo ..< Suc (rep_max ci P hi s)]) = Some ts" by simp
    from first_some_SomeD [OF this] obtain k where
      k: "lo \<le> k" "k \<le> rep_max ci P hi s" "rep_step (rmatch is ci) s k = Some ts" by auto
    then obtain ts' where
      t: "ts = take k s # ts'" "rmatch is ci (drop k s) = Some ts'"
      by (auto simp: rep_step_def)
    from Cons.IH [OF t(2)] obtain rest where
      r: "list_all2 (item_ok ci) is ts'" "drop k s = concat ts' @ rest" by blast
    have kk: "k \<le> length (takeWhile (cls_match ci P) s)"
      using k(2) rep_max_le [of ci P hi s] by simp
    have ok: "item_ok ci (Rep P lo hi) (take k s)"
      using take_takeWhile_all [OF kk] k(1) k(2) rep_max_hi [of hi _ ci P s]
      by (auto split: option.splits)
    have "s = concat ts @ rest"
      using t(1) r(2) by (metis append.assoc append_take_drop_id concat.simps(2))
    then show ?thesis using Rep t r ok by auto
  next
    case (Alt ls)
    with Cons.prems have "first_some (lit_step ci (rmatch is ci) s) ls = Some ts" by simp
    from first_some_SomeD [OF this] obtain l where
      l: "l \<in> set ls" "lit_step ci (rmatch is ci) s l = Some ts" by auto
    from lit_step_SomeD [OF l(2)] obtain ts' where
      t: "ts = take (length l) s # ts'" "rmatch is ci (drop (length l) s) = Some ts'"
         "lit_ok ci l (take (length l) s)" by blast
    from Cons.IH [OF t(2)] obtain rest where
      r: "list_all2 (item_ok ci) is ts'" "drop (length l) s = concat ts' @ rest" by blast
    have "s = concat ts @ rest"
      using t(1) r(2) by (metis append.assoc append_take_drop_id concat.simps(2))
    then show ?thesis using Alt t r l(1) by auto
  qed
qed

lemma rsearch_sound:
  "rsearch is ci s = Some ts \<Longrightarrow>
     list_all2 (item_ok ci) is ts \<and> (\<exists>pre rest. s = pre @ concat ts @ rest)"
proof (induction s)
  case Nil
  then show ?case using rmatch_sound [of "is" ci "[]" ts] by auto
next
  case (Cons c cs)
  show ?case
  proof (cases "rmatch is ci (c # cs)")
    case None
    with Cons.prems have "rsearch is ci cs = Some ts" by simp
    from Cons.IH [OF this] obtain pre rest where
      "list_all2 (item_ok ci) is ts" "cs = pre @ concat ts @ rest" by blast
    then have "c # cs = (c # pre) @ concat ts @ rest" by simp
    then show ?thesis using \<open>list_all2 (item_ok ci) is ts\<close> by blast
  next
    case (Some ts')
    with Cons.prems have "ts' = ts" by simp
    with Some rmatch_sound [of "is" ci "c # cs" ts] show ?thesis
      by (metis append_Nil)
  qed
qed

lemma rsearch_at_start: "rmatch is ci s = Some ts \<Longrightarrow> rsearch is ci s = Some ts"
  by (cases s) simp_all

lemma rsearch_complete:
  "rmatch is ci s \<noteq> None \<Longrightarrow> rsearch is ci (pre @ s) \<noteq> None"
proof (induction pre)
  case Nil
  then show ?case using rsearch_at_start by fastforce
next
  case (Cons c pre)
  then show ?case by (auto split: option.splits)
qed

lemma lit_ok_append_match: "lit_ok ci l t \<Longrightarrow> lit_match ci l (t @ x) \<and> take (length l) (t @ x) = t \<and> drop (length l) (t @ x) = x"
  by (simp add: lit_ok_def lit_match_append)

lemma rmatch_Lit_append:
  assumes "lit_ok ci l t"
  shows "rmatch (Lit l # is) ci (t @ x) = map_option ((#) t) (rmatch is ci x)"
  using lit_ok_append_match [OF assms, of x] by (simp add: lit_step_def)

lemma takeWhile_all_append:
  "list_all Q t \<Longrightarrow> takeWhile Q (t @ x) = t @ takeWhile Q x"
  by (induction t) auto

lemma rep_max_exact:
  assumes "list_all (cls_match ci P) t"
    and "case hi of None \<Rightarrow> True | Some h \<Rightarrow> length t \<le> h"
    and "hi = Some (length t) \<or> x = [] \<or> \<not> cls_match ci P (hd x)"
  shows "rep_max ci P hi (t @ x) = length t"
proof -
  have n: "length (takeWhile (cls_match ci P) (t @ x)) = length t + length (takeWhile (cls_match ci P) x)"
    using assms(1) by (simp add: takeWhile_all_append)
  from assms(3) consider "hi = Some (length t)" | "takeWhile (cls_match ci P) x = []"
    by (cases x) auto
  then show ?thesis
  proof cases
    case 1
    then show ?thesis using n by (simp add: rep_max_def Let_def)
  next
    case 2
    then show ?thesis using n assms(2) by (simp add: rep_max_def Let_def split: option.splits)
  qed
qed

lemma rmatch_Rep_append:
  assumes "item_ok ci (Rep P lo hi) t"
    and "hi = Some (length t) \<or> x = [] \<or> \<not> cls_match ci P (hd x)"
    and "rmatch is ci x = Some ts"
  shows "rmatch (Rep P lo hi # is) ci (t @ x) = Some (t # ts)"
proof -
  have m: "rep_max ci P hi (t @ x) = length t"
    using assms(1,2) by (intro rep_max_exact) auto
  have lo: "lo \<le> length t" using assms(1) by simp
  then have "rev [lo ..< Suc (length t)] = length t # rev [lo ..< length t]"
    by simp
  then have "rmatch (Rep P lo hi # is) ci (t @ x)
      = first_some (rep_step (rmatch is ci) (t @ x)) (length t # rev [lo ..< length t])"
    using m by (simp del: upt_Suc)
  then show ?thesis using assms(3) by (simp add: rep_step_def)
qed

lemma lit_ok_Cons:
  "lit_ok ci (c # l) t \<Longrightarrow> \<exists>c' t'. t = c' # t' \<and> char_eq ci c c'"
  by (cases t) (auto simp: lit_ok_def)

lemma rmatch_delimited:
  "delimited ci is \<Longrightarrow> list_all2 (item_ok ci) is ts \<Longrightarrow> rmatch is ci (concat ts @ x) = Some ts"
proof (induction "is" arbitrary: ts)
  case Nil
  then show ?case by simp
next
  case (Cons i "is")
  from Cons.prems(2) obtain t ts' where
    ts: "ts = t # ts'" "item_ok ci i t" "list_all2 (item_ok ci) is ts'"
    by (auto simp: list_all2_Cons1)
  show ?case
  proof (cases i)
    case (Lit l)
    then have "delimited ci is" using Cons.prems(1) by simp
    from Cons.IH [OF this ts(3)] have "rmatch is ci (concat ts' @ x) = Some ts'" .
    then show ?thesis
      using Lit ts rmatch_Lit_append [of ci l t "is" "concat ts' @ x"] by simp
  next
    case (Rep P lo hi)
    then have d: "delimited ci is"
      and stop: "hi = Some lo \<or>
        (case is of Lit (c # l) # is' \<Rightarrow> \<forall>c'. char_eq ci c c' \<longrightarrow> \<not> cls_match ci P c' | _ \<Rightarrow> False)"
      using Cons.prems(1) by simp_all
    from Cons.IH [OF d ts(3)] have r: "rmatch is ci (concat ts' @ x) = Some ts'" .
    have "hi = Some (length t) \<or> concat ts' @ x = [] \<or> \<not> cls_match ci P (hd (concat ts' @ x))"
    proof (cases "hi = Some lo")
      case True
      then show ?thesis using ts(2) Rep by auto
    next
      case False
      with stop obtain c l is' where
        i: "is = Lit (c # l) # is'" "\<forall>c'. char_eq ci c c' \<longrightarrow> \<not> cls_match ci P c'"
        by (auto split: list.splits item.splits)
      with ts(3) obtain u us where u: "ts' = u # us" "lit_ok ci (c # l) u"
        by (auto simp: list_all2_Cons1)
      from lit_ok_Cons [OF u(2)] obtain c' u' where "u = c' # u'" "char_eq ci c c'" by blast
      then show ?thesis using i(2) u(1) by simp
    qed
    from rmatch_Rep_append [OF _ this r, of lo] ts(2) Rep
    show ?thesis using ts(1) by simp
  next
    case (Alt ls)
    then show ?thesis using Cons.prems(1) by simp
  qed
qed


lemma lit_match_False: "length t = length l \<Longrightarrow> lit_match False l t \<longleftrightarrow> t = l"
  by (induction False l t rule: lit_match.induct) (auto simp: char_eq_def)

lemma lit_ok_False [simp]: "lit_ok False l t \<longleftrightarrow> t = l"
  using lit_match_False [of t l] by (auto simp: lit_ok_def)

lemma cls_match_False [simp]: "cls_match False P = P"
  by (rule ext) (simp add: cls_match_def)

lemma dateTime_shape:
  "list_all2 (item_ok False) (dateTime_items P) ts \<longleftrightarrow>
     (\<exists>mo d y h mi p. timestamp_fields P mo d y h mi p \<and>
        ts = [mo, ''/'', d, ''/'', y, '' '', h, '':'', mi, '' '', p, ''M''])"
  by (auto simp: dateTime_items_def list_all2_Cons1 timestamp_fields_def digits_def cls_match_def)

lemma delimited_dateTime: "delimited False (dateTime_items P)"
  by (simp add: dateTime_items_def char_eq_def cls_match_def is_digit_def)

lemma rsearch_dateTime_sound:
  assumes "rsearch (dateTime_items P) False s = Some ts"
  shows "\<exists>mo d y h mi p pre rest. timestamp_fields P mo d y h mi p \<and>
           ts = [mo, ''/'', d, ''/'', y, '' '', h, '':'', mi, '' '', p, ''M''] \<and>
           s = pre @ timestamp_text mo d y h mi p @ rest"
proof -
  from rsearch_sound [OF assms] obtain pre rest where
    a: "list_all2 (item_ok False) (dateTime_items P) ts" "s = pre @ concat ts @ rest" by blast
  from a(1) obtain mo d y h mi p where
    b: "timestamp_fields P mo d y h mi p" "ts = [mo, ''/'', d, ''/'', y, '' '', h, '':'', mi, '' '', p, ''M'']"
    unfolding dateTime_shape by blast
  have "concat ts = timestamp_text mo d y h mi p"
    using b(2) by (simp add: timestamp_text_def)
  then show ?thesis using a(2) b by metis
qed

lemma rmatch_dateTime_text:
  assumes "timestamp_fields P mo d y h mi p"
  shows "rmatch (dateTime_items P) False (timestamp_text mo d y h mi p @ x)
           = Some [mo, ''/'', d, ''/'', y, '' '', h, '':'', mi, '' '', p, ''M'']"
proof -
  let ?ts = "[mo, ''/'', d, ''/'', y, '' '', h, '':'', mi, '' '', p, ''M'']"
  have "list_all2 (item_ok False) (dateTime_items P) ?ts"
    unfolding dateTime_shape using assms by blast
  from rmatch_delimited [OF delimited_dateTime this, of x]
  show ?thesis by (simp add: timestamp_text_def)
qed

lemma match_dateTimeParts_text:
  assumes "timestamp_fields (\<lambda>c. c = CHR ''A'' \<or> c = CHR ''P'') mo d y h mi p"
  shows "match_js re_dateTimeParts (timestamp_text mo d y h mi p)
           = Some [timestamp_text mo d y h mi p, mo, d, y, h, mi, p @ ''M'']"
proof -
  have "rmatch (items re_dateTimeParts) False (timestamp_text mo d y h mi p @ [])
          = Some [mo, ''/'', d, ''/'', y, '' '', h, '':'', mi, '' '', p, ''M'']"
    using rmatch_dateTime_text [OF assms, of "[]"] by (simp add: re_dateTimeParts_def)
  then have "rsearch (items re_dateTimeParts) (ignoreCase re_dateTimeParts) (timestamp_text mo d y h mi p)
          = Some [mo, ''/'', d, ''/'', y, '' '', h, '':'', mi, '' '', p, ''M'']"
    by (simp add: rsearch_at_start re_dateTimeParts_def)
  then show ?thesis
    by (simp add: match_js_def) (simp add: re_dateTimeParts_def slice_def timestamp_text_def)
qed

lemma match_dateTime_sound:
  assumes "match_js re_dateTime s = Some m"
  shows "\<exists>mo d y h mi p pre rest. timestamp_fields (\<lambda>c. c = CHR ''A'' \<or> c = CHR ''P'') mo d y h mi p \<and>
           m = [timestamp_text mo d y h mi p, timestamp_text mo d y h mi p] \<and>
           s = pre @ timestamp_text mo d y h mi p @ rest"
proof -
  from assms obtain ts where
    ts: "rsearch (dateTime_items (\<lambda>c. c = CHR ''A'' \<or> c = CHR ''P'')) False s = Some ts"
        "m = concat ts # map (\<lambda>(a, b). concat (slice ts a b)) [(0, 12)]"
    by (auto simp: match_js_def re_dateTime_def)
  from rsearch_dateTime_sound [OF ts(1)] obtain mo d y h mi p pre rest where
    f: "timestamp_fields (\<lambda>c. c = CHR ''A'' \<or> c = CHR ''P'') mo d y h mi p"
       "ts = [mo, ''/'', d, ''/'', y, '' '', h, '':'', mi, '' '', p, ''M'']"
       "s = pre @ timestamp_text mo d y h mi p @ rest" by blast
  have "m = [timestamp_text mo d y h mi p, timestamp_text mo d y h mi p]"
    using ts(2) f(2) by (simp add: slice_def timestamp_text_def)
  then show ?thesis using f by blast
qed

section \<open>Properties of the parsers\<close>

lemma createdAt_dateTime_text:
  assumes "timestamp_fields (\<lambda>c. c = CHR ''A'' \<or> c = CHR ''P'') mo d y h mi p"
  shows "createdAt_dateTime (timestamp_text mo d y h mi p)
           = Inr (y @ ''-'' @ padStart 2 mo @ ''-'' @ padStart 2 d @ '' ''
                  @ padStart 2 (js_String (int (to24Hour (js_Number h) (p @ ''M''))))
                  @ '':'' @ padStart 2 mi @ '':'' @ ''00'')"
  by (simp add: createdAt_dateTime_def match_dateTimeParts_text [OF assms] slice_from_def Let_def)

lemma createdAt_dateTime_dayEarlier_text:
  assumes "timestamp_fields (\<lambda>c. c = CHR ''A'' \<or> c = CHR ''P'') mo d y h mi p"
  shows "createdAt_dateTime_dayEarlier tz (timestamp_text mo d y h mi p)
           = Inr (formatDate (setDate tz (dDate (new_Date tz (int (js_Number y)) (int (js_Number mo) - 1) (int (js_Number d))
                     (int (to24Hour (js_Number h) (p @ ''M''))) (int (js_Number mi))) - 1)
                   (new_Date tz (int (js_Number y)) (int (js_Number mo) - 1) (int (js_Number d))
                     (int (to24Hour (js_Number h) (p @ ''M''))) (int (js_Number mi)))))"
  by (simp add: createdAt_dateTime_dayEarlier_def match_dateTimeParts_text [OF assms] slice_from_def Let_def)

lemma formatDate_nonempty: "formatDate dt \<noteq> []"
  by (simp add: formatDate_def Let_def)

text \<open>fields_dateTime never throws, and gives a non-empty string exactly when the pattern matches\<close>

lemma fields_dateTime_plain:
  "fields_dateTime createdAt_dateTime s =
     Inr (case match_js re_dateTime s of None \<Rightarrow> None
          | Some m \<Rightarrow> (case createdAt_dateTime (m ! 1) of Inr c \<Rightarrow> Some c | Inl e \<Rightarrow> None))
   \<and> (\<forall>m. match_js re_dateTime s = Some m \<longrightarrow> (\<exists>c. createdAt_dateTime (m ! 1) = Inr c \<and> c \<noteq> []))"
proof (cases "match_js re_dateTime s")
  case None
  then show ?thesis by (simp add: fields_dateTime_def)
next
  case (Some m)
  from match_dateTime_sound [OF this] obtain mo d y h mi p where
    f: "timestamp_fields (\<lambda>c. c = CHR ''A'' \<or> c = CHR ''P'') mo d y h mi p"
       "m = [timestamp_text mo d y h mi p, timestamp_text mo d y h mi p]" by blast
  show ?thesis
    using Some f(2) createdAt_dateTime_text [OF f(1)] by (simp add: fields_dateTime_def)
qed

lemma fields_dateTime_dayEarlier:
  "fields_dateTime (createdAt_dateTime_dayEarlier tz) s =
     Inr (case match_js re_dateTime s of None \<Rightarrow> None
          | Some m \<Rightarrow> (case createdAt_dateTime_dayEarlier tz (m ! 1) of Inr c \<Rightarrow> Some c | Inl e \<Rightarrow> None))
   \<and> (\<forall>m. match_js re_dateTime s = Some m \<longrightarrow> (\<exists>c. createdAt_dateTime_dayEarlier tz (m ! 1) = Inr c \<and> c \<noteq> []))"
proof (cases "match_js re_dateTime s")
  case None
  then show ?thesis by (simp add: fields_dateTime_def)
next
  case (Some m)
  from match_dateTime_sound [OF this] obtain mo d y h mi p where
    f: "timestamp_fields (\<lambda>c. c = CHR ''A'' \<or> c = CHR ''P'') mo d y h mi p"
       "m = [timestamp_text mo d y h mi p, timestamp_text mo d y h mi p]" by blast
  show ?thesis
    using Some f(2) createdAt_dateTime_dayEarlier_text [OF f(1)] formatDate_nonempty
    by (simp add: fields_dateTime_def)
qed

lemma fields_sent2_Inr:
  "fields_sent2 text = Inr (received_record \<lparr> rec_createdAt :=
        (case match_js re_dateTime (collapse_ws text) of None \<Rightarrow> None
         | Some m \<Rightarrow> (case createdAt_dateTime (m ! 1) of Inr c \<Rightarrow> Some c | Inl e \<Rightarrow> None)),
      rec_to := extract_to (collapse_ws text),
      rec_sender := extract_sender_fallback (collapse_ws text) \<rparr>)"
  using fields_dateTime_plain [of "collapse_ws text"] by (simp add: fields_sent2_def Let_def)

lemma fields_received_Inr:
  "fields_received text = Inr (received_record \<lparr> rec_createdAt :=
        (case match_js re_dateTime (collapse_ws text) of None \<Rightarrow> None
         | Some m \<Rightarrow> (case createdAt_dateTime (m ! 1) of Inr c \<Rightarrow> Some c | Inl e \<Rightarrow> None)),
      rec_to := extract_to (collapse_ws text),
      rec_sender := extract_sender (collapse_ws text) \<rparr>)"
  using fields_dateTime_plain [of "collapse_ws text"] by (simp add: fields_received_def Let_def)

lemma fields_part000a_Inr:
  "fields_part000a text = Inr (sent_record \<lparr> rec_createdAt :=
        (case match_js re_dateTime (collapse_ws text) of None \<Rightarrow> None
         | Some m \<Rightarrow> (case createdAt_dateTime (m ! 1) of Inr c \<Rightarrow> Some c | Inl e \<Rightarrow> None)),
      rec_from := extract_from (collapse_ws text) \<rparr>)"
  using fields_dateTime_plain [of "collapse_ws text"] by (simp add: fields_part000a_def Let_def)

lemma fields_part000b_Inr:
  "fields_part000b tz text = Inr (sent_record \<lparr> rec_createdAt :=
        (case match_js re_dateTime (collapse_ws text) of None \<Rightarrow> None
         | Some m \<Rightarrow> (case createdAt_dateTime_dayEarlier tz (m ! 1) of Inr c \<Rightarrow> Some c | Inl e \<Rightarrow> None)),
      rec_from := extract_from (collapse_ws text) \<rparr>)"
  using fields_dateTime_dayEarlier [of tz "collapse_ws text"] by (simp add: fields_part000b_def Let_def)

lemma parsers_total:
  "\<exists>c. fields_sent2 pdfText = Inr c \<and> parsePdfText_sent2 pdfText = Inr (validate c (rec_to c))"
  "\<exists>c. fields_received pdfText = Inr c \<and> parsePdfText_received pdfText = Inr (validate c (rec_to c))"
  "\<exists>c. fields_part000a pdfText = Inr c \<and> parsePdfText_part000a pdfText = Inr (validate c (rec_from c))"
  "\<exists>c. fields_part000b tz pdfText = Inr c \<and> parsePdfText_part000b tz pdfText = Inr (validate c (rec_from c))"
  by (simp_all add: fields_sent2_Inr fields_received_Inr fields_part000a_Inr fields_part000b_Inr
      parsePdfText_sent2_def parsePdfText_received_def parsePdfText_part000a_def parsePdfText_part000b_def)

lemma validate_Some_iff:
  "validate c party = Some r \<longleftrightarrow>
     r = c \<and> truthy (rec_createdAt c) \<and> truthy party \<and> truthy (rec_sender c)"
  by (auto simp: validate_def)

lemma validate_None_iff:
  "validate c party = None \<longleftrightarrow> \<not> (truthy (rec_createdAt c) \<and> truthy party \<and> truthy (rec_sender c))"
  by (auto simp: validate_def)

lemma truthy_iff: "truthy v \<longleftrightarrow> v \<noteq> None \<and> v \<noteq> Some []"
  by (cases v) (auto simp: truthy_def)

lemma days_in_month_bounds: "28 \<le> days_in_month y m" "days_in_month y m \<le> 31"
  by (simp_all add: days_in_month_def)

lemma date_norm_day0:
  "date_norm y m 0 = (fst (prev_month y m), snd (prev_month y m),
                       days_in_month (fst (prev_month y m)) (snd (prev_month y m)))"
proof -
  let ?y = "fst (prev_month y m)" and ?m = "snd (prev_month y m)"
  have "date_norm y m 0 = date_norm ?y ?m (days_in_month ?y ?m)"
    by (subst date_norm.simps) simp
  also have "\<dots> = (?y, ?m, days_in_month ?y ?m)"
    using days_in_month_bounds [of ?y ?m] by (subst date_norm.simps) simp
  finally show ?thesis .
qed

lemma lastDay_of_month:
  assumes "1 \<le> m" "m \<le> 12"
  shows "dDate (new_Date (\<lambda>d. d) y m 0 0 0) = days_in_month (js_year y) m"
proof (cases "m = 12")
  case True
  then show ?thesis
    by (simp add: new_Date_def Let_def date_norm_day0 prev_month_def days_in_month_def)
next
  case False
  then have "m div 12 = 0" "m mod 12 = m" using assms by simp_all
  then show ?thesis using assms
    by (simp add: new_Date_def Let_def date_norm_day0 prev_month_def)
qed

text \<open>
  The calendar day before a date, as the calendar defines it, in a time zone without
  transitions.
\<close>

lemma oneDayEarlier_calendar:
  assumes "1 \<le> month" "month \<le> 12" "1 \<le> day" "100 \<le> year"
  shows "oneDayEarlier (\<lambda>d. d) month day year = previous_day month day year"
proof (cases "1 < day")
  case True
  then show ?thesis by (simp add: oneDayEarlier_def previous_day_def Let_def)
next
  case False
  then have d: "day = 1" using assms(3) by simp
  show ?thesis
  proof (cases "1 < month")
    case True
    then have "dDate (new_Date (\<lambda>d. d) year (month - 1) 0 0 0) = days_in_month year (month - 1)"
      using lastDay_of_month [of "month - 1" year] assms by (simp add: js_year_def)
    then show ?thesis using d True by (simp add: oneDayEarlier_def previous_day_def Let_def)
  next
    case False
    then have m: "month = 1" using assms(1) by simp
    have "dDate (new_Date (\<lambda>d. d) (year - 1) 12 0 0 0) = 31"
      using lastDay_of_month [of 12 "year - 1"] by (simp add: days_in_month_def)
    then show ?thesis using d m by (simp add: oneDayEarlier_def previous_day_def Let_def)
  qed
qed

text \<open>split_on and digit strings\<close>

lemma split_on_nonempty: "split_on sep s \<noteq> []"
  by (induction s) (auto split: list.splits)

lemma split_on_no_sep: "sep \<notin> set a \<Longrightarrow> split_on sep a = [a]"
  by (induction a) (auto split: list.splits)

lemma split_on_append: "sep \<notin> set a \<Longrightarrow> split_on sep (a @ sep # rest) = a # split_on sep rest"
  by (induction a) (auto split: list.splits)

lemma digits_no_slash: "digits a \<Longrightarrow> CHR ''/'' \<notin> set a"
  by (auto simp: digits_def list_all_iff is_digit_def)

lemma split_date:
  assumes "digits mo" "digits d" "digits y"
  shows "split_on CHR ''/'' (mo @ ''/'' @ d @ ''/'' @ y) = [mo, d, y]"
  using assms by (simp add: split_on_append split_on_no_sep digits_no_slash)

lemma match_examDate_sound:
  assumes "match_js re_examDate s = Some m"
  shows "\<exists>mo d y pre rest. date_fields mo d y \<and>
           m = [''Exam Date: '' @ mo @ ''/'' @ d @ ''/'' @ y, mo @ ''/'' @ d @ ''/'' @ y] \<and>
           s = pre @ ''Exam Date: '' @ mo @ ''/'' @ d @ ''/'' @ y @ rest"
proof -
  from assms obtain ts where
    ts: "rsearch (items re_examDate) False s = Some ts"
        "m = concat ts # map (\<lambda>(a, b). concat (slice ts a b)) [(1, 6)]"
    by (auto simp: match_js_def re_examDate_def)
  from rsearch_sound [OF ts(1)] obtain pre rest where
    a: "list_all2 (item_ok False) (items re_examDate) ts" "s = pre @ concat ts @ rest" by blast
  from a(1) obtain mo d y where
    b: "date_fields mo d y" "ts = [''Exam Date: '', mo, ''/'', d, ''/'', y]"
    by (auto simp: re_examDate_def list_all2_Cons1 date_fields_def digits_def)
  have "m = [''Exam Date: '' @ mo @ ''/'' @ d @ ''/'' @ y, mo @ ''/'' @ d @ ''/'' @ y]"
    using ts(2) b(2) by (simp add: slice_def)
  moreover have "s = pre @ ''Exam Date: '' @ mo @ ''/'' @ d @ ''/'' @ y @ rest"
    using a(2) b(2) by simp
  ultimately show ?thesis using b(1) by blast
qed

lemma examDate_capture_parts:
  assumes "match_js re_examDate s = Some m"
  shows "\<exists>mo d y. date_fields mo d y \<and> m ! 1 = mo @ ''/'' @ d @ ''/'' @ y \<and>
           map js_Number (split_on CHR ''/'' (m ! 1)) = [js_Number mo, js_Number d, js_Number y]"
proof -
  from match_examDate_sound [OF assms] obtain mo d y where
    f: "date_fields mo d y" "m = [''Exam Date: '' @ mo @ ''/'' @ d @ ''/'' @ y, mo @ ''/'' @ d @ ''/'' @ y]"
    by blast
  have "split_on CHR ''/'' (mo @ ''/'' @ d @ ''/'' @ y) = [mo, d, y]"
    using f(1) by (intro split_date) (simp_all add: date_fields_def)
  then show ?thesis using f by (intro exI [of _ mo] exI [of _ d] exI [of _ y]) simp
qed

lemma no_random_Inr: "parse t0 = Inr r \<Longrightarrow> no_random parse tape t0 = Inr (r, tape)"
  by (simp add: no_random_def)

lemma parser_of_simps:
  "parser_of Sent1 w tape t0 = Inr (validate (fst (fields_sent1 (localTime w) tape t0)) (rec_from (fst (fields_sent1 (localTime w) tape t0))),
                                    snd (fields_sent1 (localTime w) tape t0))"
  "\<exists>c. parser_of Sent2 w tape t0 = Inr (validate c (rec_to c), tape) \<and> fields_sent2 t0 = Inr c"
  "\<exists>c. parser_of Received w tape t0 = Inr (validate c (rec_to c), tape) \<and> fields_received t0 = Inr c"
  "\<exists>c. parser_of Part000a w tape t0 = Inr (validate c (rec_from c), tape) \<and> fields_part000a t0 = Inr c"
  "\<exists>c. parser_of Part000b w tape t0 = Inr (validate c (rec_from c), tape) \<and> fields_part000b (localTime w) t0 = Inr c"
  "parser_of Part001 w tape t0 =
     Inr (validate (fields_part001 (dateParse w) t0) (rec_from (fields_part001 (dateParse w) t0)), tape)"
  using parsers_total(1-3) [of t0] parsers_total(4) [of "localTime w" t0]
  by (auto simp: parser_of_def parsePdfText_sent1_def Let_def no_random_def parsePdfText_part001_def)

lemma parser_of_never_throws: "never_throws (parser_of s w)"
  unfolding never_throws_def
proof (intro allI)
  fix tape t0
  show "\<exists>r. parser_of s w tape t0 = Inr r"
    using parser_of_simps [of w tape t0] by (cases s) auto
qed

text \<open>the party field read from the text, by script\<close>

lemma validate_Some_iff2:
  "Some r = validate c p \<longleftrightarrow> r = c \<and> truthy (rec_createdAt c) \<and> truthy p \<and> truthy (rec_sender c)"
  by (auto simp: validate_def)

lemma parser_of_valid:
  assumes "parser_of s w tape t0 = Inr (Some r, tape')"
  shows "valid_record s r"
  using assms parser_of_simps [of w tape t0]
  by (cases s) (auto simp: valid_record_def party_field_def validate_Some_iff validate_Some_iff2)

section \<open>Properties of getRandomTime\<close>

lemma bit_length_le: "n < 2 ^ k \<Longrightarrow> bit_length n \<le> k"
proof (induction n arbitrary: k rule: bit_length.induct)
  case (1 n)
  show ?case
  proof (cases "n = 0")
    case True
    then show ?thesis by (subst bit_length.simps) simp
  next
    case False
    then obtain j where k: "k = Suc j" using "1.prems" by (cases k) auto
    then have "n div 2 < 2 ^ j" using "1.prems" by auto
    from "1.IH" [OF False this] show ?thesis
      using False k by (subst bit_length.simps) simp
  qed
qed

lemma round_half_even_ge:
  assumes "B \<le> n" "d dvd B" "0 < d"
  shows "B \<le> round_half_even n d * d"
proof -
  from assms(2) obtain m where m: "B = d * m" by (auto simp: dvd_def)
  then have "m \<le> n div d" using assms(1,3)
    by (metis div_le_mono nonzero_mult_div_cancel_left less_numeral_extra(3))
  then have "B \<le> (n div d) * d" using m by (simp add: mult.commute)
  moreover have "n div d \<le> round_half_even n d"
    by (simp add: round_half_even_def Let_def)
  ultimately show ?thesis
    by (meson le_trans mult_le_mono1)
qed

lemma round_half_even_less:
  assumes "2 * n + d < 2 * B" "0 < d"
  shows "round_half_even n d * d < B"
proof -
  define q where "q = n div d"
  define r where "r = n mod d"
  have n: "n = q * d + r" by (simp add: q_def r_def)
  have rd: "r < d" using assms(2) by (simp add: r_def)
  show ?thesis
  proof (cases "2 * r < d")
    case True
    then have "round_half_even n d = q" by (simp add: round_half_even_def q_def r_def Let_def)
    moreover have "q * d < B" using n assms(1) by linarith
    ultimately show ?thesis by simp
  next
    case False
    have "round_half_even n d \<le> q + 1"
      by (simp add: round_half_even_def q_def r_def Let_def)
    then have "round_half_even n d * d \<le> (q + 1) * d" by (rule mult_le_mono1)
    moreover have "2 * ((q + 1) * d) < 2 * B"
    proof -
      have "2 * ((q + 1) * d) = 2 * (q * d) + 2 * d" by (simp add: algebra_simps)
      also have "\<dots> \<le> 2 * (q * d) + 2 * r + d" using False by linarith
      also have "\<dots> = 2 * n + d" using n by simp
      finally show ?thesis using assms(1) by linarith
    qed
    ultimately show ?thesis by linarith
  qed
qed

lemma round_half_even_le:
  assumes "n \<le> B" "d dvd B" "0 < d"
  shows "round_half_even n d * d \<le> B"
proof (cases "n = B")
  case True
  then have "n mod d = 0" using assms(2) by auto
  then have "round_half_even n d = n div d" using assms(3) by (simp add: round_half_even_def Let_def)
  then show ?thesis using True assms(2) by simp
next
  case False
  then have lt: "n < B" using assms(1) by simp
  from assms(2) obtain m where m: "B = d * m" by (auto simp: dvd_def)
  have "n div d < m" using lt m assms(3)
    by (metis div_less_iff_less_mult mult.commute)
  then have "n div d + 1 \<le> m" by simp
  moreover have "round_half_even n d \<le> n div d + 1"
    by (simp add: round_half_even_def Let_def)
  ultimately have "round_half_even n d \<le> m" by linarith
  then have "round_half_even n d * d \<le> m * d" by (rule mult_le_mono1)
  then show ?thesis using m by (simp add: mult.commute)
qed

lemma round53_le:
  assumes "n \<le> c * 2 ^ 53" "n < 2 ^ 106"
  shows "round53 n \<le> c * 2 ^ 53"
proof -
  have "bit_length n - 53 \<le> 53" using bit_length_le [OF assms(2)] by simp
  then have "(2::nat) ^ (bit_length n - 53) dvd 2 ^ 53" by (rule le_imp_power_dvd)
  then have "(2::nat) ^ (bit_length n - 53) dvd c * 2 ^ 53" by (rule dvd_mult)
  from round_half_even_le [OF assms(1) this] show ?thesis by (simp add: round53_def)
qed

lemma round53_ge:
  assumes "c * 2 ^ 53 \<le> n" "n < 2 ^ 106"
  shows "c * 2 ^ 53 \<le> round53 n"
proof -
  have "bit_length n - 53 \<le> 53" using bit_length_le [OF assms(2)] by simp
  then have "(2::nat) ^ (bit_length n - 53) dvd 2 ^ 53" by (rule le_imp_power_dvd)
  then have "(2::nat) ^ (bit_length n - 53) dvd c * 2 ^ 53" by (rule dvd_mult)
  from round_half_even_ge [OF assms(1) this] show ?thesis by (simp add: round53_def)
qed

lemma round53_less_60:
  assumes "n \<le> 60 * (2 ^ 53 - 1)"
  shows "round53 n < 60 * 2 ^ 53"
proof -
  have "n < 2 ^ 59" using assms by simp
  then have "bit_length n - 53 \<le> 6" using bit_length_le [of n 59] by simp
  then have "(2::nat) ^ (bit_length n - 53) \<le> 2 ^ 6" by (rule power_increasing) simp
  then have "2 * n + 2 ^ (bit_length n - 53) < 2 * (60 * 2 ^ 53)" using assms by simp
  from round_half_even_less [OF this] show ?thesis by (simp add: round53_def)
qed

lemma randomHour_bounds:
  assumes "k < 2 ^ 53"
  shows "8 \<le> double_floor (double_plus (double_times k (17 - 8)) 8)"
    and "double_floor (double_plus (double_times k (17 - 8)) 8) \<le> 17"
proof -
  have a: "k * 9 \<le> 9 * 2 ^ 53" "k * 9 < 2 ^ 106" using assms by simp_all
  have x1: "round53 (k * 9) \<le> 9 * 2 ^ 53" by (rule round53_le [OF a])
  have b: "round53 (k * 9) + 8 * 2 ^ 53 \<le> 17 * 2 ^ 53" "round53 (k * 9) + 8 * 2 ^ 53 < 2 ^ 106"
    "8 * 2 ^ 53 \<le> round53 (k * 9) + 8 * 2 ^ 53"
    using x1 by simp_all
  have hi: "round53 (round53 (k * 9) + 8 * 2 ^ 53) \<le> 17 * 2 ^ 53" by (rule round53_le [OF b(1,2)])
  have lo: "8 * 2 ^ 53 \<le> round53 (round53 (k * 9) + 8 * 2 ^ 53)" by (rule round53_ge [OF b(3,2)])
  have "8 * 2 ^ 53 div 2 ^ 53 \<le> round53 (round53 (k * 9) + 8 * 2 ^ 53) div (2 ^ 53 :: nat)"
    using lo by (rule div_le_mono)
  then show "8 \<le> double_floor (double_plus (double_times k (17 - 8)) 8)"
    by (simp add: double_floor_def double_plus_def double_times_def)
  have "round53 (round53 (k * 9) + 8 * 2 ^ 53) div (2 ^ 53 :: nat) \<le> 17 * 2 ^ 53 div 2 ^ 53"
    using hi by (rule div_le_mono)
  then show "double_floor (double_plus (double_times k (17 - 8)) 8) \<le> 17"
    by (simp add: double_floor_def double_plus_def double_times_def)
qed

lemma randomMinute_bound:
  assumes "k < 2 ^ 53"
  shows "double_floor (double_times k 60) < 60"
proof -
  have "k * 60 \<le> 60 * (2 ^ 53 - 1)" using assms by simp
  from round53_less_60 [OF this] show ?thesis
    by (simp add: double_floor_def double_times_def div_less_iff_less_mult)
qed

lemma getRandomTime_bounds:
  assumes "\<forall>i. tape i < 2 ^ 53"
  shows "8 \<le> fst (fst (getRandomTime tape))" "fst (fst (getRandomTime tape)) \<le> 17"
    "fst (snd (fst (getRandomTime tape))) < 60" "snd (snd (fst (getRandomTime tape))) < 60"
    "\<forall>i. snd (getRandomTime tape) i < 2 ^ 53"
  using assms randomHour_bounds [of "tape 0"] randomMinute_bound [of "tape 1"] randomMinute_bound [of "tape 2"]
  by (simp_all add: getRandomTime_def Let_def)

section \<open>Properties of batchUpload\<close>

lemma batch_count_step:
  assumes "0 < (B::nat)" "i < L"
  shows "(L - i + B - 1) div B = Suc ((L - (i + B) + B - 1) div B)"
proof (cases "i + B \<le> L")
  case True
  define M where "M = L - (i + B) + B - 1"
  have "L - i + B - 1 = M + B"
    unfolding M_def using True assms by arith
  then have "(L - i + B - 1) div B = (M + B) div B" by (simp only:)
  also have "\<dots> = Suc (M div B)" using assms by simp
  finally show ?thesis by (simp only: M_def)
next
  case False
  then have z: "L - (i + B) + B - 1 = B - 1" by simp
  define M where "M = L - i - 1"
  have m: "M < B" "L - i + B - 1 = M + B"
    unfolding M_def using False assms by arith+
  have "(L - i + B - 1) div B = (M + B) div B" by (simp only: m(2))
  also have "\<dots> = Suc (M div B)" using assms by simp
  also have "\<dots> = Suc 0" using m(1) by simp
  also have "\<dots> = Suc ((B - 1) div B)" using assms by simp
  finally show ?thesis by (simp only: z)
qed

lemma batchUploadFrom_partition:
  assumes "0 < B"
  shows "\<exists>log. batchUploadFrom post records B i = Some log
           \<and> length log = (length records - i + B - 1) div B
           \<and> (\<forall>k < length log. fst (log ! k) = slice records (i + k * B) (i + k * B + B))
           \<and> (\<forall>e \<in> set log. snd e = post (fst e))
           \<and> (\<forall>b \<in> set (map fst log). length b \<le> B)
           \<and> concat (map fst log) = drop i records"
proof (induction "length records - i" arbitrary: i rule: less_induct)
  case less
  show ?case
  proof (cases "i < length records")
    case False
    then show ?thesis
      using assms by (subst batchUploadFrom.simps) simp
  next
    case True
    then have "length records - (i + B) < length records - i"
      using assms by arith
    from less [OF this] obtain rest where
      r: "batchUploadFrom post records B (i + B) = Some rest"
        "length rest = (length records - (i + B) + B - 1) div B"
        "\<forall>k < length rest. fst (rest ! k) = slice records (i + B + k * B) (i + B + k * B + B)"
        "\<forall>e \<in> set rest. snd e = post (fst e)"
        "\<forall>b \<in> set (map fst rest). length b \<le> B"
        "concat (map fst rest) = drop (i + B) records"
      by blast
    let ?b = "slice records i (i + B)"
    have eq: "batchUploadFrom post records B i = Some ((?b, post ?b) # rest)"
      using True r(1) by (subst batchUploadFrom.simps) simp
    have len: "length ((?b, post ?b) # rest) = (length records - i + B - 1) div B"
      using r(2) batch_count_step [OF assms True] by simp
    have idx: "\<forall>k < length ((?b, post ?b) # rest).
                 fst (((?b, post ?b) # rest) ! k) = slice records (i + k * B) (i + k * B + B)"
    proof (intro allI impI)
      fix k assume k: "k < length ((?b, post ?b) # rest)"
      show "fst (((?b, post ?b) # rest) ! k) = slice records (i + k * B) (i + k * B + B)"
      proof (cases k)
        case 0
        then show ?thesis by simp
      next
        case (Suc j)
        then have "j < length rest" using k by simp
        then have "fst (rest ! j) = slice records (i + B + j * B) (i + B + j * B + B)"
          using r(3) by blast
        then show ?thesis using Suc by (simp add: add.assoc add.left_commute)
      qed
    qed
    have sz: "\<forall>b \<in> set (map fst ((?b, post ?b) # rest)). length b \<le> B"
      using r(5) by (auto simp: slice_def)
    have cat: "concat (map fst ((?b, post ?b) # rest)) = drop i records"
    proof -
      have "take B (drop i records) @ drop (i + B) records = drop i records"
        by (metis add.commute append_take_drop_id drop_drop)
      then show ?thesis using r(6) by (simp add: slice_def)
    qed
    show ?thesis
      using eq len idx sz cat r(4) by (intro exI [of _ "(?b, post ?b) # rest"]) simp
  qed
qed

lemma ceil_div_nat:
  assumes "0 < (B::nat)"
  shows "nat \<lceil>real N / real B\<rceil> = (N + B - 1) div B"
proof -
  define c where "c = (N + B - 1) div B"
  have lo: "c * B \<le> N + B - 1" unfolding c_def by simp
  have hi: "N + B - 1 < c * B + B"
    unfolding c_def using assms
    by (metis add.commute dividend_less_times_div mult.commute)
  from hi assms have "N \<le> c * B" by arith
  then have "real N \<le> real c * real B"
    by (metis of_nat_le_iff of_nat_mult)
  then have up: "real N / real B \<le> real c"
    using assms by (simp add: divide_le_eq)
  from lo assms have "c * B < N + B" by arith
  then have "real c * real B < real N + real B"
    by (metis of_nat_less_iff of_nat_mult of_nat_add)
  then have "(real c - 1) * real B < real N" by (simp add: algebra_simps)
  then have dn: "real c - 1 < real N / real B"
    using assms by (simp add: less_divide_eq)
  have "\<lceil>real N / real B\<rceil> = int c"
    using up dn by (intro ceiling_unique) simp_all
  then show ?thesis by (simp add: c_def)
qed

section \<open>Properties of the folders and of the loops\<close>

lemma tryRename_cases:
  "tryRename w fs file target = fs \<or>
   (file \<in> set (incoming fs) \<and> \<not> renameFails w target file \<and>
    tryRename w fs file target =
      (case target of
         ProcessedFolder \<Rightarrow> fs \<lparr> incoming := removeAll file (incoming fs), processed := List.insert file (processed fs) \<rparr>
       | FailedFolder \<Rightarrow> fs \<lparr> incoming := removeAll file (incoming fs), failed := List.insert file (failed fs) \<rparr>))"
  by (simp add: tryRename_def renameSync_def)

lemma tryRename_ok: "folders_ok fs \<Longrightarrow> folders_ok (tryRename w fs file target)"
  by (cases target) (auto simp: tryRename_def renameSync_def folders_ok_def distinct_removeAll)

lemma tryRename_success:
  "file \<in> set (incoming fs) \<Longrightarrow> \<not> renameFails w target file \<Longrightarrow>
   file \<notin> set (incoming (tryRename w fs file target)) \<and>
   (target = ProcessedFolder \<longrightarrow> file \<in> set (processed (tryRename w fs file target))) \<and>
   (target = FailedFolder \<longrightarrow> file \<in> set (failed (tryRename w fs file target)))"
  by (cases target) (simp_all add: tryRename_def renameSync_def)

lemma tryRename_incoming_other:
  "g \<noteq> file \<Longrightarrow> g \<in> set (incoming (tryRename w fs file target)) \<longleftrightarrow> g \<in> set (incoming fs)"
  by (cases target) (auto simp: tryRename_def renameSync_def)

lemma tryRename_incoming_subset:
  "set (incoming (tryRename w fs file target)) \<subseteq> set (incoming fs)"
  by (cases target) (auto simp: tryRename_def renameSync_def)

lemma tryRename_processed_mono:
  "g \<in> set (processed fs) \<Longrightarrow> g \<in> set (processed (tryRename w fs file target))"
  by (cases target) (auto simp: tryRename_def renameSync_def)

lemma tryRename_failed_mono:
  "g \<in> set (failed fs) \<Longrightarrow> g \<in> set (failed (tryRename w fs file target))"
  by (cases target) (auto simp: tryRename_def renameSync_def)

lemma tryRename_failed_same [simp]: "failed (tryRename w fs file ProcessedFolder) = failed fs"
  by (auto simp: tryRename_def renameSync_def)

lemma tryRename_processed_same [simp]: "processed (tryRename w fs file FailedFolder) = processed fs"
  by (auto simp: tryRename_def renameSync_def)

lemma moveToFailed_ok: "folders_ok fs \<Longrightarrow> folders_ok (moveToFailed w files fs)"
  by (induction files arbitrary: fs) (simp_all add: tryRename_ok)

lemma moveToFailed_processed [simp]: "processed (moveToFailed w files fs) = processed fs"
  by (induction files arbitrary: fs) simp_all

lemma moveToFailed_failed_mono:
  "g \<in> set (failed fs) \<Longrightarrow> g \<in> set (failed (moveToFailed w files fs))"
  by (induction files arbitrary: fs) (simp_all add: tryRename_failed_mono)

lemma moveToFailed_incoming_subset:
  "set (incoming (moveToFailed w files fs)) \<subseteq> set (incoming fs)"
proof (induction files arbitrary: fs)
  case (Cons f files)
  then show ?case using tryRename_incoming_subset [of w fs f FailedFolder] by fastforce
qed simp

lemma moveToFailed_moves:
  "f \<in> set files \<Longrightarrow> f \<in> set (incoming fs) \<Longrightarrow> \<not> renameFails w FailedFolder f \<Longrightarrow>
   f \<in> set (failed (moveToFailed w files fs)) \<and> f \<notin> set (incoming (moveToFailed w files fs))"
proof (induction files arbitrary: fs)
  case Nil
  then show ?case by simp
next
  case (Cons g files)
  show ?case
  proof (cases "g = f")
    case True
    from tryRename_success [OF Cons.prems(2,3)]
    have a: "f \<in> set (failed (tryRename w fs f FailedFolder))"
      "f \<notin> set (incoming (tryRename w fs f FailedFolder))" by simp_all
    show ?thesis
      using True a moveToFailed_failed_mono [of f "tryRename w fs f FailedFolder" w files]
        moveToFailed_incoming_subset [of w files "tryRename w fs f FailedFolder"] by auto
  next
    case False
    then have "f \<in> set files" using Cons.prems(1) by simp
    moreover have "f \<in> set (incoming (tryRename w fs g FailedFolder))"
      using False Cons.prems(2) tryRename_incoming_other [of f g w fs FailedFolder] by simp
    ultimately show ?thesis using Cons.IH Cons.prems(3) by simp
  qed
qed

lemma extractPdfText_present:
  "file \<in> set (incoming fs) \<Longrightarrow> extractPdfText w fs file = extraction w file"
  by (simp add: extractPdfText_def readFileSync_def extraction_def)

lemma extractPdfText_absent:
  "file \<notin> set (incoming fs) \<Longrightarrow> extractPdfText w fs file = None"
  by (simp add: extractPdfText_def readFileSync_def)

lemma fileToBase64_after_extract:
  "extractPdfText w fs file = Some text \<Longrightarrow>
   \<exists>bytes. fileData w file = Some bytes \<and> fileToBase64 w fs file = Some (base64 w bytes)"
  by (auto simp: extractPdfText_def fileToBase64_def readFileSync_def split: if_splits option.splits)

lemma recordOfFile_absent:
  "file \<notin> set (incoming fs) \<Longrightarrow> recordOfFile parse w fs tape file = Inr (None, tape)"
  by (simp add: recordOfFile_def extractPdfText_absent)

lemma recordOfFile_cases:
  "(\<exists>tape'. recordOfFile parse w fs tape file = Inr (None, tape')) \<or>
   (\<exists>text. file \<in> set (incoming fs) \<and> extraction w file = Some text \<and> text \<noteq> [] \<and>
      ((\<exists>e. parse tape text = Inl e \<and> recordOfFile parse w fs tape file = Inl e) \<or>
       (\<exists>record tape' bytes. parse tape text = Inr (Some record, tape') \<and> fileData w file = Some bytes \<and>
          recordOfFile parse w fs tape file =
            Inr (Some (record \<lparr> rec_attachment := Some (base64 w bytes),
                               rec_file_extension := Some ''pdf'' \<rparr>), tape'))))"
proof (cases "extractPdfText w fs file")
  case None
  then show ?thesis by (simp add: recordOfFile_def)
next
  case (Some pdfText)
  then have inc: "file \<in> set (incoming fs)"
    using extractPdfText_absent [of "file" fs w] by (cases "file \<in> set (incoming fs)") auto
  then have ex: "extraction w file = Some pdfText"
    using Some extractPdfText_present by simp
  from fileToBase64_after_extract [OF Some] obtain bytes where
    b: "fileData w file = Some bytes" "fileToBase64 w fs file = Some (base64 w bytes)" by blast
  show ?thesis
  proof (cases "pdfText = []")
    case True
    then show ?thesis using Some by (simp add: recordOfFile_def)
  next
    case False
    show ?thesis
    proof (cases "parse tape pdfText")
      case (Inl e)
      then show ?thesis using Some False inc ex by (simp add: recordOfFile_def)
    next
      case (Inr p)
      obtain r tape' where p: "p = (r, tape')" by (cases p)
      show ?thesis
      proof (cases r)
        case None
        then show ?thesis using Some False Inr p by (simp add: recordOfFile_def)
      next
        case (Some rcd)
        then show ?thesis
          using \<open>extractPdfText w fs file = Some pdfText\<close> False Inr p b inc ex
          by (simp add: recordOfFile_def)
      qed
    qed
  qed
qed

lemma recordOfFile_total:
  assumes "never_throws parse"
  shows "\<exists>r tape'. recordOfFile parse w fs tape file = Inr (r, tape')"
proof -
  have "\<And>t e. parse tape t \<noteq> Inl e"
    using assms by (metis never_throws_def Inl_Inr_False)
  then show ?thesis
    using recordOfFile_cases [of parse w fs tape "file"] by auto
qed

lemma recordOfFile_fails:
  assumes "file_fails parse w file"
  shows "\<exists>tape'. recordOfFile parse w fs tape file = Inr (None, tape')"
proof -
  have "\<And>t0 rcd tape' e. extraction w file = Some t0 \<Longrightarrow> t0 \<noteq> [] \<Longrightarrow>
          parse tape t0 \<noteq> Inr (Some rcd, tape') \<and> parse tape t0 \<noteq> Inl e"
  proof -
    fix t0 rcd tape' e
    assume "extraction w file = Some t0" "t0 \<noteq> []"
    then have "parse_null parse t0" using assms by (simp add: file_fails_def)
    then obtain t where "parse tape t0 = Inr (None, t)" by (auto simp: parse_null_def)
    then show "parse tape t0 \<noteq> Inr (Some rcd, tape') \<and> parse tape t0 \<noteq> Inl e" by simp
  qed
  then show ?thesis
    using recordOfFile_cases [of parse w fs tape "file"] by blast
qed

lemma plain_eq_listed:
  "prepareRecordsForUpload_plain parse w files records fs tape =
     map_sum id (\<lambda>(r, ff, fs', t). (r, fs', t)) (prepareLoop_listed parse w files records failedFiles fs tape)"
proof (induction files arbitrary: records failedFiles fs tape)
  case Nil
  then show ?case by simp
next
  case (Cons f files)
  show ?case
  proof (cases "recordOfFile parse w fs tape f")
    case (Inl e)
    then show ?thesis by simp
  next
    case (Inr p)
    obtain r tape' where p: "p = (r, tape')" by (cases p)
    show ?thesis using Inr p Cons.IH by (cases r) simp_all
  qed
qed

lemma recordOfFile_same_presence:
  "(f \<in> set (incoming fs) \<longleftrightarrow> f \<in> set (incoming fs0)) \<Longrightarrow>
   recordOfFile parse w fs tape f = recordOfFile parse w fs0 tape f"
proof -
  assume p: "f \<in> set (incoming fs) \<longleftrightarrow> f \<in> set (incoming fs0)"
  then have "readFileSync w fs f = readFileSync w fs0 f" by (simp add: readFileSync_def)
  then have e: "extractPdfText w fs f = extractPdfText w fs0 f" "fileToBase64 w fs f = fileToBase64 w fs0 f"
    by (simp_all add: extractPdfText_def fileToBase64_def)
  show ?thesis by (simp only: recordOfFile_def e)
qed

lemma loop_listed_inv:
  assumes "never_throws parse" "folders_ok fs"
  shows "\<exists>records' failedFiles' fs' tape'.
           prepareLoop_listed parse w files records failedFiles fs tape = Inr (records', failedFiles', fs', tape')
         \<and> folders_ok fs' \<and> failed fs' = failed fs
         \<and> set (incoming fs') \<subseteq> set (incoming fs)
         \<and> set (processed fs) \<subseteq> set (processed fs')
         \<and> set failedFiles \<subseteq> set failedFiles'
         \<and> (\<forall>f. f \<in> set (incoming fs) \<and> file_fails parse w f \<longrightarrow> f \<in> set (incoming fs'))
         \<and> (\<forall>f \<in> set files. file_fails parse w f \<longrightarrow> f \<in> set failedFiles')"
  using assms(2)
proof (induction files arbitrary: records failedFiles fs tape)
  case Nil
  then show ?case by simp
next
  case (Cons g files)
  from recordOfFile_total [OF assms(1), of w fs tape g] obtain r tape1 where
    r: "recordOfFile parse w fs tape g = Inr (r, tape1)" by blast
  show ?case
  proof (cases r)
    case None
    from Cons.IH [OF Cons.prems, of records "failedFiles @ [g]" tape1]
    obtain records' failedFiles' fs' tape' where
      ih: "prepareLoop_listed parse w files records (failedFiles @ [g]) fs tape1 = Inr (records', failedFiles', fs', tape')"
        "folders_ok fs'" "failed fs' = failed fs" "set (incoming fs') \<subseteq> set (incoming fs)"
        "set (processed fs) \<subseteq> set (processed fs')" "set (failedFiles @ [g]) \<subseteq> set failedFiles'"
        "\<forall>f. f \<in> set (incoming fs) \<and> file_fails parse w f \<longrightarrow> f \<in> set (incoming fs')"
        "\<forall>f \<in> set files. file_fails parse w f \<longrightarrow> f \<in> set failedFiles'"
      by blast
    have "prepareLoop_listed parse w (g # files) records failedFiles fs tape = Inr (records', failedFiles', fs', tape')"
      using r None ih(1) by simp
    then show ?thesis using ih(2-8) by auto
  next
    case (Some rcd)
    let ?fs1 = "tryRename w fs g ProcessedFolder"
    have ok1: "folders_ok ?fs1" using Cons.prems by (rule tryRename_ok)
    have gnf: "\<not> file_fails parse w g"
    proof
      assume "file_fails parse w g"
      from recordOfFile_fails [OF this, of fs tape] show False using r Some by simp
    qed
    from Cons.IH [OF ok1, of "records @ [rcd]" failedFiles tape1]
    obtain records' failedFiles' fs' tape' where
      ih: "prepareLoop_listed parse w files (records @ [rcd]) failedFiles ?fs1 tape1 = Inr (records', failedFiles', fs', tape')"
        "folders_ok fs'" "failed fs' = failed ?fs1" "set (incoming fs') \<subseteq> set (incoming ?fs1)"
        "set (processed ?fs1) \<subseteq> set (processed fs')" "set failedFiles \<subseteq> set failedFiles'"
        "\<forall>f. f \<in> set (incoming ?fs1) \<and> file_fails parse w f \<longrightarrow> f \<in> set (incoming fs')"
        "\<forall>f \<in> set files. file_fails parse w f \<longrightarrow> f \<in> set failedFiles'"
      by blast
    have eq: "prepareLoop_listed parse w (g # files) records failedFiles fs tape = Inr (records', failedFiles', fs', tape')"
      using r Some ih(1) by simp
    have a: "set (incoming fs') \<subseteq> set (incoming fs)"
      using ih(4) tryRename_incoming_subset [of w fs g ProcessedFolder] by blast
    have b: "set (processed fs) \<subseteq> set (processed fs')"
      using ih(5) tryRename_processed_mono [of _ fs w g ProcessedFolder] by blast
    have c: "\<forall>f. f \<in> set (incoming fs) \<and> file_fails parse w f \<longrightarrow> f \<in> set (incoming fs')"
    proof (intro allI impI)
      fix f assume f: "f \<in> set (incoming fs) \<and> file_fails parse w f"
      then have "f \<noteq> g" using gnf by auto
      then have "f \<in> set (incoming ?fs1)"
        using f tryRename_incoming_other [of f g w fs ProcessedFolder] by simp
      then show "f \<in> set (incoming fs')" using ih(7) f by simp
    qed
    have d: "\<forall>f \<in> set (g # files). file_fails parse w f \<longrightarrow> f \<in> set failedFiles'"
      using ih(8) gnf by auto
    show ?thesis using eq ih(2,3,6) a b c d by simp
  qed
qed

lemma collectRecords_None:
  "recordOfFile parse w fs0 tape g = Inr (None, tape1) \<Longrightarrow>
   collectRecords parse w fs0 tape (g # files) =
     (fst (collectRecords parse w fs0 tape1 files),
      g # fst (snd (collectRecords parse w fs0 tape1 files)),
      snd (snd (collectRecords parse w fs0 tape1 files)))"
  by simp

lemma collectRecords_Some:
  "recordOfFile parse w fs0 tape g = Inr (Some rcd, tape1) \<Longrightarrow>
   collectRecords parse w fs0 tape (g # files) =
     (rcd # fst (collectRecords parse w fs0 tape1 files),
      fst (snd (collectRecords parse w fs0 tape1 files)),
      snd (snd (collectRecords parse w fs0 tape1 files)))"
  by simp

lemma loop_listed_None:
  "recordOfFile parse w fs tape g = Inr (None, tape1) \<Longrightarrow>
   prepareLoop_listed parse w (g # files) records failedFiles fs tape =
     prepareLoop_listed parse w files records (failedFiles @ [g]) fs tape1"
  by simp

lemma loop_listed_Some:
  "recordOfFile parse w fs tape g = Inr (Some rcd, tape1) \<Longrightarrow>
   prepareLoop_listed parse w (g # files) records failedFiles fs tape =
     prepareLoop_listed parse w files (records @ [rcd]) failedFiles (tryRename w fs g ProcessedFolder) tape1"
  by simp

lemma loop_listed_records:
  assumes "never_throws parse" "distinct files" "set files \<subseteq> set (incoming fs)"
    and "set files \<subseteq> set (incoming fs0)"
  shows "\<exists>fs'. prepareLoop_listed parse w files records failedFiles fs tape =
           Inr (records @ fst (collectRecords parse w fs0 tape files),
                failedFiles @ fst (snd (collectRecords parse w fs0 tape files)),
                fs', snd (snd (collectRecords parse w fs0 tape files)))"
  using assms(2-4)
proof (induction files arbitrary: records failedFiles fs tape)
  case Nil
  then show ?case by simp
next
  case (Cons g files)
  have same: "recordOfFile parse w fs tape g = recordOfFile parse w fs0 tape g"
    using Cons.prems by (intro recordOfFile_same_presence) simp
  from recordOfFile_total [OF assms(1), of w fs tape g] obtain r tape1 where
    r: "recordOfFile parse w fs tape g = Inr (r, tape1)" by blast
  have r0: "recordOfFile parse w fs0 tape g = Inr (r, tape1)" using r same by simp
  have d: "distinct files" "set files \<subseteq> set (incoming fs0)" "g \<notin> set files" "set files \<subseteq> set (incoming fs)"
    using Cons.prems by auto
  show ?case
  proof (cases r)
    case None
    from Cons.IH [OF d(1) d(4) d(2), of records "failedFiles @ [g]" tape1]
    obtain fs' where
      "prepareLoop_listed parse w files records (failedFiles @ [g]) fs tape1 =
         Inr (records @ fst (collectRecords parse w fs0 tape1 files),
              (failedFiles @ [g]) @ fst (snd (collectRecords parse w fs0 tape1 files)),
              fs', snd (snd (collectRecords parse w fs0 tape1 files)))" by blast
    then show ?thesis
      unfolding loop_listed_None [OF r [unfolded None]] collectRecords_None [OF r0 [unfolded None]]
      by simp
  next
    case (Some rcd)
    have "\<And>x. x \<in> set files \<Longrightarrow> x \<in> set (incoming (tryRename w fs g ProcessedFolder))"
    proof -
      fix x assume x: "x \<in> set files"
      then have "x \<noteq> g" "x \<in> set (incoming fs)" using d(3,4) by auto
      then show "x \<in> set (incoming (tryRename w fs g ProcessedFolder))"
        by (simp add: tryRename_incoming_other)
    qed
    then have "set files \<subseteq> set (incoming (tryRename w fs g ProcessedFolder))" by blast
    from Cons.IH [OF d(1) this d(2), of "records @ [rcd]" failedFiles tape1]
    obtain fs' where
      "prepareLoop_listed parse w files (records @ [rcd]) failedFiles (tryRename w fs g ProcessedFolder) tape1 =
         Inr ((records @ [rcd]) @ fst (collectRecords parse w fs0 tape1 files),
              failedFiles @ fst (snd (collectRecords parse w fs0 tape1 files)),
              fs', snd (snd (collectRecords parse w fs0 tape1 files)))" by blast
    then show ?thesis
      unfolding loop_listed_Some [OF r [unfolded Some]] collectRecords_Some [OF r0 [unfolded Some]]
      by simp
  qed
qed

lemma loop_listed_step:
  "prepareLoop_listed parse w (g # files) records failedFiles fs tape = Inr res \<Longrightarrow>
   (\<exists>tape1. recordOfFile parse w fs tape g = Inr (None, tape1) \<and>
       prepareLoop_listed parse w files records (failedFiles @ [g]) fs tape1 = Inr res) \<or>
   (\<exists>rcd tape1. recordOfFile parse w fs tape g = Inr (Some rcd, tape1) \<and>
       prepareLoop_listed parse w files (records @ [rcd]) failedFiles (tryRename w fs g ProcessedFolder) tape1 = Inr res)"
proof (cases "recordOfFile parse w fs tape g")
  case (Inl e)
  assume "prepareLoop_listed parse w (g # files) records failedFiles fs tape = Inr res"
  then show ?thesis using Inl by simp
next
  case (Inr p)
  assume a: "prepareLoop_listed parse w (g # files) records failedFiles fs tape = Inr res"
  obtain r tape1 where p: "p = (r, tape1)" by (cases p)
  show ?thesis using a Inr p by (cases r) simp_all
qed

text \<open>what the loop appends comes from the parser\<close>

lemma recordOfFile_Some:
  assumes "recordOfFile parse w fs tape f = Inr (Some rcd, tape1)"
  shows "\<exists>t0 r a. t0 \<noteq> [] \<and> extraction w f = Some t0 \<and> f \<in> set (incoming fs) \<and>
           parse tape t0 = Inr (Some r, tape1) \<and>
           rcd = r \<lparr> rec_attachment := Some a, rec_file_extension := Some ''pdf'' \<rparr>"
  using recordOfFile_cases [of parse w fs tape f] assms by auto

lemma loop_listed_all:
  assumes "\<And>tape t0 r tape'. parse tape t0 = Inr (Some r, tape') \<Longrightarrow> Q r"
    and "\<And>r a e. Q r \<Longrightarrow> Q (r \<lparr> rec_attachment := a, rec_file_extension := e \<rparr>)"
  shows "prepareLoop_listed parse w files records failedFiles fs tape = Inr (records', failedFiles', fs', tape')
         \<Longrightarrow> \<forall>r \<in> set records. Q r \<Longrightarrow> \<forall>r \<in> set records'. Q r"
proof (induction files arbitrary: records failedFiles fs tape)
  case Nil
  then show ?case by simp
next
  case (Cons g files)
  from loop_listed_step [OF Cons.prems(1)] show ?case
  proof (elim disjE exE conjE)
    fix tape1
    assume "prepareLoop_listed parse w files records (failedFiles @ [g]) fs tape1 = Inr (records', failedFiles', fs', tape')"
    from Cons.IH [OF this Cons.prems(2)] show ?thesis .
  next
    fix rcd tape1
    assume r: "recordOfFile parse w fs tape g = Inr (Some rcd, tape1)"
      and l: "prepareLoop_listed parse w files (records @ [rcd]) failedFiles (tryRename w fs g ProcessedFolder) tape1
               = Inr (records', failedFiles', fs', tape')"
    from recordOfFile_Some [OF r] obtain t0 r0 a where
      "parse tape t0 = Inr (Some r0, tape1)"
      "rcd = r0 \<lparr> rec_attachment := Some a, rec_file_extension := Some ''pdf'' \<rparr>" by blast
    then have "Q rcd" using assms by blast
    then have "\<forall>r \<in> set (records @ [rcd]). Q r" using Cons.prems(2) by simp
    from Cons.IH [OF l this] show ?thesis .
  qed
qed

lemma loop_listed_prefix:
  "prepareLoop_listed parse w files records failedFiles fs tape = Inr (records', failedFiles', fs', tape')
   \<Longrightarrow> \<exists>more. records' = records @ more"
proof (induction files arbitrary: records failedFiles fs tape)
  case Nil
  then show ?case by simp
next
  case (Cons g files)
  from loop_listed_step [OF Cons.prems(1)] show ?case
  proof (elim disjE exE conjE)
    fix tape1
    assume "prepareLoop_listed parse w files records (failedFiles @ [g]) fs tape1 = Inr (records', failedFiles', fs', tape')"
    from Cons.IH [OF this] show ?thesis .
  next
    fix rcd tape1
    assume "prepareLoop_listed parse w files (records @ [rcd]) failedFiles (tryRename w fs g ProcessedFolder) tape1
               = Inr (records', failedFiles', fs', tape')"
    from Cons.IH [OF this] show ?thesis by auto
  qed
qed

lemma recordOfFile_tape:
  assumes "recordOfFile parse w fs tape g = Inr (r, tape1)"
  shows "tape1 = tape \<or> (\<exists>t0 r0. parse tape t0 = Inr (r0, tape1))"
proof (cases "extractPdfText w fs g")
  case None
  then show ?thesis using assms by (simp add: recordOfFile_def)
next
  case (Some t0)
  show ?thesis
  proof (cases "t0 = []")
    case True
    then show ?thesis using assms Some by (simp add: recordOfFile_def)
  next
    case False
    show ?thesis
    proof (cases "parse tape t0")
      case (Inl e)
      then show ?thesis using assms Some False by (simp add: recordOfFile_def)
    next
      case (Inr p)
      obtain r0 tp where p: "p = (r0, tp)" by (cases p)
      have "tp = tape1"
        using assms Some False Inr p
        by (cases r0) (auto simp: recordOfFile_def split: option.splits)
      then show ?thesis using Inr p by blast
    qed
  qed
qed

text \<open>a file that yields a record, and whose move succeeds, ends in processed/\<close>

lemma loop_listed_success:
  assumes nt: "never_throws parse"
    and inv: "\<And>tape t0 r tape'. I tape \<Longrightarrow> parse tape t0 = Inr (r, tape') \<Longrightarrow> I tape'"
    and yields: "\<And>tape fs. I tape \<Longrightarrow> f \<in> set (incoming fs) \<Longrightarrow>
        \<exists>rcd tape'. recordOfFile parse w fs tape f = Inr (Some rcd, tape') \<and> Q rcd"
    and ok: "\<not> renameFails w ProcessedFolder f"
  shows "f \<in> set files \<Longrightarrow> f \<in> set (incoming fs) \<Longrightarrow> folders_ok fs \<Longrightarrow> I tape \<Longrightarrow>
     \<exists>records' failedFiles' fs' tape'.
        prepareLoop_listed parse w files records failedFiles fs tape = Inr (records', failedFiles', fs', tape')
      \<and> f \<in> set (processed fs') \<and> f \<notin> set (incoming fs') \<and> (\<exists>r \<in> set records'. Q r)"
proof (induction files arbitrary: records failedFiles fs tape)
  case Nil
  then show ?case by simp
next
  case (Cons g files)
  have inv': "\<And>r tape1. recordOfFile parse w fs tape g = Inr (r, tape1) \<Longrightarrow> I tape1"
  proof -
    fix r tape1 assume a: "recordOfFile parse w fs tape g = Inr (r, tape1)"
    from recordOfFile_tape [OF a]
    show "I tape1" using Cons.prems(4) inv by auto
  qed
  show ?case
  proof (cases "g = f")
    case True
    from yields [OF Cons.prems(4) Cons.prems(2)] obtain rcd tape1 where
      r: "recordOfFile parse w fs tape f = Inr (Some rcd, tape1)" "Q rcd" by blast
    let ?fs1 = "tryRename w fs f ProcessedFolder"
    from tryRename_success [OF Cons.prems(2) ok]
    have s: "f \<notin> set (incoming ?fs1)" "f \<in> set (processed ?fs1)" by simp_all
    have ok1: "folders_ok ?fs1" using Cons.prems(3) by (rule tryRename_ok)
    from loop_listed_inv [OF nt ok1, of w files "records @ [rcd]" failedFiles tape1]
    obtain records' failedFiles' fs' tape' where
      l: "prepareLoop_listed parse w files (records @ [rcd]) failedFiles ?fs1 tape1 = Inr (records', failedFiles', fs', tape')"
        "set (incoming fs') \<subseteq> set (incoming ?fs1)" "set (processed ?fs1) \<subseteq> set (processed fs')"
      by blast
    from loop_listed_prefix [OF l(1)] have "rcd \<in> set records'" by auto
    moreover have "prepareLoop_listed parse w (g # files) records failedFiles fs tape = Inr (records', failedFiles', fs', tape')"
      using True r(1) l(1) by simp
    ultimately show ?thesis using s l(2,3) r(2) by blast
  next
    case False
    then have fin: "f \<in> set files" using Cons.prems(1) by simp
    from recordOfFile_total [OF nt, of w fs tape g] obtain r tape1 where
      r: "recordOfFile parse w fs tape g = Inr (r, tape1)" by blast
    have i1: "I tape1" using inv' [OF r] .
    show ?thesis
    proof (cases r)
      case None
      from Cons.IH [OF fin Cons.prems(2,3) i1, of records "failedFiles @ [g]"]
      show ?thesis using r None by simp
    next
      case (Some rcd)
      let ?fs1 = "tryRename w fs g ProcessedFolder"
      have "f \<in> set (incoming ?fs1)"
        using False Cons.prems(2) by (simp add: tryRename_incoming_other)
      moreover have "folders_ok ?fs1" using Cons.prems(3) by (rule tryRename_ok)
      ultimately show ?thesis
        using Cons.IH [OF fin _ _ i1, of ?fs1 "records @ [rcd]" failedFiles] r Some by simp
    qed
  qed
qed

lemma requests_for_Some:
  "\<exists>req. requests_for w records = Some req \<and> concat (map fst req) = records"
proof (cases "records = []")
  case True
  then show ?thesis by (simp add: requests_for_def)
next
  case False
  have "(0::nat) < 100" by simp
  from batchUploadFrom_partition [OF this, of "postOk w" records 0]
  show ?thesis using False by (auto simp: requests_for_def batchUpload_def)
qed

lemma bulk_for_concat: "concat (map fst (bulk_for w records)) = records"
  by (simp add: bulk_for_def bulkUpload_def)

lemma main_batch_alt:
  "main_batch parse w fs tape =
     (case prepareRecordsForUpload_listed parse w (listPdfFiles fs) fs tape of
        Inl (e, fs') \<Rightarrow> Some \<lparr> folders = fs', uploads = [], caught = Some e \<rparr>
      | Inr (records, fs', tape') \<Rightarrow>
          map_option (\<lambda>req. \<lparr> folders = fs', uploads = req, caught = None \<rparr>) (requests_for w records))"
  by (auto simp: main_batch_def requests_for_def split: sum.splits prod.splits option.splits)

lemma listPdfFiles_props:
  "distinct (incoming fs) \<Longrightarrow> distinct (listPdfFiles fs)"
  "set (listPdfFiles fs) \<subseteq> set (incoming fs)"
  "f \<in> set (listPdfFiles fs) \<longleftrightarrow> f \<in> set (incoming fs) \<and> endsWith f ''.pdf''"
  by (auto simp: listPdfFiles_def)

text \<open>the loop over the directory listing of a well-formed state\<close>

lemma loop_listing:
  assumes nt: "never_throws parse" and d: "distinct (incoming fs)"
  shows "\<exists>failedFiles fs1.
           prepareLoop_listed parse w (listPdfFiles fs) [] [] fs tape =
             Inr (fst (collectRecords parse w fs tape (listPdfFiles fs)), failedFiles, fs1,
                  snd (snd (collectRecords parse w fs tape (listPdfFiles fs))))"
proof -
  have a: "distinct (listPdfFiles fs)" "set (listPdfFiles fs) \<subseteq> set (incoming fs)"
    using d by (simp_all add: listPdfFiles_props)
  from loop_listed_records [where records = "[]" and failedFiles = "[]" and w = w and tape = tape,
      OF nt a(1) a(2) a(2)]
  show ?thesis by auto
qed

lemma loop_listing_folders:
  assumes nt: "never_throws parse" and ok: "folders_ok fs"
  shows "\<exists>failedFiles fs1.
           prepareLoop_listed parse w (listPdfFiles fs) [] [] fs tape =
             Inr (fst (collectRecords parse w fs tape (listPdfFiles fs)), failedFiles, fs1,
                  snd (snd (collectRecords parse w fs tape (listPdfFiles fs))))
         \<and> folders_ok fs1 \<and> failed fs1 = failed fs
         \<and> (\<forall>f \<in> set (listPdfFiles fs). file_fails parse w f \<longrightarrow> f \<in> set (incoming fs1) \<and> f \<in> set failedFiles)"
proof -
  have d: "distinct (incoming fs)" using ok by (simp add: folders_ok_def)
  from loop_listing [OF nt d, of w tape] obtain failedFiles fs1 where
    l: "prepareLoop_listed parse w (listPdfFiles fs) [] [] fs tape =
             Inr (fst (collectRecords parse w fs tape (listPdfFiles fs)), failedFiles, fs1,
                  snd (snd (collectRecords parse w fs tape (listPdfFiles fs))))" by blast
  from loop_listed_inv [OF nt ok, of w "listPdfFiles fs" "[]" "[]" tape] l
  have "folders_ok fs1" "failed fs1 = failed fs"
    "\<forall>f. f \<in> set (incoming fs) \<and> file_fails parse w f \<longrightarrow> f \<in> set (incoming fs1)"
    "\<forall>f \<in> set (listPdfFiles fs). file_fails parse w f \<longrightarrow> f \<in> set failedFiles"
    by auto
  then show ?thesis using l listPdfFiles_props(2) [of fs] by blast
qed

lemma loop_listed_total:
  assumes "never_throws parse"
  shows "\<exists>records' failedFiles' fs' tape'.
           prepareLoop_listed parse w files records failedFiles fs tape = Inr (records', failedFiles', fs', tape')"
proof (induction files arbitrary: records failedFiles fs tape)
  case Nil
  then show ?case by simp
next
  case (Cons g files)
  from recordOfFile_total [OF assms, of w fs tape g] obtain r tape1 where
    r: "recordOfFile parse w fs tape g = Inr (r, tape1)" by blast
  show ?case
  proof (cases r)
    case None
    then show ?thesis using r Cons.IH [of records "failedFiles @ [g]" fs tape1] by simp
  next
    case (Some rcd)
    then show ?thesis
      using r Cons.IH [of "records @ [rcd]" failedFiles "tryRename w fs g ProcessedFolder" tape1] by simp
  qed
qed

lemma main_batch_run:
  assumes nt: "never_throws parse"
  shows "\<exists>recs failedFiles fs1 tape1 req.
           prepareLoop_listed parse w (listPdfFiles fs) [] [] fs tape = Inr (recs, failedFiles, fs1, tape1)
         \<and> requests_for w recs = Some req
         \<and> concat (map fst req) = recs
         \<and> main_batch parse w fs tape =
             Some \<lparr> folders = moveToFailed w failedFiles fs1, uploads = req, caught = None \<rparr>"
proof -
  from loop_listed_total [OF nt, of w "listPdfFiles fs" "[]" "[]" fs tape] obtain recs failedFiles fs1 tape1 where
    l: "prepareLoop_listed parse w (listPdfFiles fs) [] [] fs tape = Inr (recs, failedFiles, fs1, tape1)"
    by blast
  from requests_for_Some [of w recs] obtain req where
    r: "requests_for w recs = Some req" "concat (map fst req) = recs" by blast
  have "main_batch parse w fs tape = Some \<lparr> folders = moveToFailed w failedFiles fs1, uploads = req, caught = None \<rparr>"
    unfolding main_batch_alt prepareRecordsForUpload_listed_def l using r(1) by simp
  then show ?thesis using l r by blast
qed

lemma main_plain_run:
  assumes nt: "never_throws parse"
  shows "\<exists>recs failedFiles fs1 tape1.
           prepareLoop_listed parse w (listPdfFiles fs) [] [] fs tape = Inr (recs, failedFiles, fs1, tape1)
         \<and> prepareRecordsForUpload_plain parse w (listPdfFiles fs) [] fs tape = Inr (recs, fs1, tape1)"
proof -
  from loop_listed_total [OF nt, of w "listPdfFiles fs" "[]" "[]" fs tape] obtain recs failedFiles fs1 tape1 where
    l: "prepareLoop_listed parse w (listPdfFiles fs) [] [] fs tape = Inr (recs, failedFiles, fs1, tape1)"
    by blast
  have "prepareRecordsForUpload_plain parse w (listPdfFiles fs) [] fs tape = Inr (recs, fs1, tape1)"
    unfolding plain_eq_listed [where failedFiles = "[]"] l by simp
  then show ?thesis using l by blast
qed

text \<open>Every script: the run ends, and what it uploads is what the loop collected.\<close>

lemma main_run:
  "\<exists>recs failedFiles fs1 tape1 run.
           prepareLoop_listed (parser_of s w) w (listPdfFiles fs) [] [] fs tape = Inr (recs, failedFiles, fs1, tape1)
         \<and> main s w fs tape = Some run
         \<and> uploaded run = recs
         \<and> uploads run = (if s = Received \<or> s = Part001 then bulk_for w recs else the (requests_for w recs))
         \<and> folders run =
              (if s = Part001 then fs1
               else if s = Received then moveFailedFiles w fs1
               else moveToFailed w failedFiles fs1)"
proof -
  let ?P = "parser_of s w"
  have nt: "never_throws ?P" by (rule parser_of_never_throws)
  consider "s = Sent1 \<or> s = Part000a \<or> s = Part000b" | "s = Sent2" | "s = Received" | "s = Part001"
    by (cases s) auto
  then show ?thesis
  proof cases
    case 1
    then have m: "main s w fs tape = main_batch ?P w fs tape"
      by (auto simp: main_def parser_of_def main_sent1_def main_part000a_def main_part000b_def)
    from main_batch_run [OF nt, of w fs tape] obtain recs failedFiles fs1 tape1 req where
      b: "prepareLoop_listed ?P w (listPdfFiles fs) [] [] fs tape = Inr (recs, failedFiles, fs1, tape1)"
         "requests_for w recs = Some req" "concat (map fst req) = recs"
         "main_batch ?P w fs tape = Some \<lparr> folders = moveToFailed w failedFiles fs1, uploads = req, caught = None \<rparr>"
      by blast
    show ?thesis
      using 1 m b by (intro exI [of _ recs] exI [of _ failedFiles] exI [of _ fs1] exI [of _ tape1])
        (auto simp: uploaded_def)
  next
    case 2
    then have p: "?P = no_random parsePdfText_sent2" by (simp add: parser_of_def)
    from main_batch_run [OF nt, of w fs tape] obtain recs failedFiles fs1 tape1 req where
      b: "prepareLoop_listed ?P w (listPdfFiles fs) [] [] fs tape = Inr (recs, failedFiles, fs1, tape1)"
         "requests_for w recs = Some req" "concat (map fst req) = recs"
         "main_batch ?P w fs tape = Some \<lparr> folders = moveToFailed w failedFiles fs1, uploads = req, caught = None \<rparr>"
      by blast
    have "main s w fs tape = Some \<lparr> folders = moveToFailed w failedFiles fs1, uploads = req, caught = Some ReferenceError \<rparr>"
      using 2 b(4) unfolding p by (simp add: main_def main_sent2_def)
    then show ?thesis
      using 2 b by (intro exI [of _ recs] exI [of _ failedFiles] exI [of _ fs1] exI [of _ tape1])
        (auto simp: uploaded_def)
  next
    case 3
    then have p: "?P = no_random parsePdfText_received" by (simp add: parser_of_def)
    from main_plain_run [OF nt, of w fs tape] obtain recs failedFiles fs1 tape1 where
      b: "prepareLoop_listed ?P w (listPdfFiles fs) [] [] fs tape = Inr (recs, failedFiles, fs1, tape1)"
         "prepareRecordsForUpload_plain ?P w (listPdfFiles fs) [] fs tape = Inr (recs, fs1, tape1)"
      by blast
    have "main s w fs tape = Some \<lparr> folders = moveFailedFiles w fs1, uploads = bulk_for w recs, caught = None \<rparr>"
      using 3 b(2) unfolding p by (simp add: main_def main_received_def bulk_for_def)
    then show ?thesis
      using 3 b(1) by (intro exI [of _ recs] exI [of _ failedFiles] exI [of _ fs1] exI [of _ tape1])
        (auto simp: uploaded_def bulk_for_concat)
  next
    case 4
    then have p: "?P = no_random (\<lambda>t0. Inr (parsePdfText_part001 (dateParse w) t0))" by (simp add: parser_of_def)
    from main_plain_run [OF nt, of w fs tape] obtain recs failedFiles fs1 tape1 where
      b: "prepareLoop_listed ?P w (listPdfFiles fs) [] [] fs tape = Inr (recs, failedFiles, fs1, tape1)"
         "prepareRecordsForUpload_plain ?P w (listPdfFiles fs) [] fs tape = Inr (recs, fs1, tape1)"
      by blast
    have "main s w fs tape = Some \<lparr> folders = fs1, uploads = bulk_for w recs, caught = None \<rparr>"
      using 4 b(2) unfolding p by (simp add: main_def main_part001_def bulk_for_def)
    then show ?thesis
      using 4 b(1) by (intro exI [of _ recs] exI [of _ failedFiles] exI [of _ fs1] exI [of _ tape1])
        (auto simp: uploaded_def bulk_for_concat)
  qed
qed

lemma recordOfFile_renameFails [simp]:
  "recordOfFile parse (w \<lparr> renameFails := rf \<rparr>) fs tape f = recordOfFile parse w fs tape f"
proof -
  have e: "extractPdfText (w \<lparr> renameFails := rf \<rparr>) fs f = extractPdfText w fs f"
    "fileToBase64 (w \<lparr> renameFails := rf \<rparr>) fs f = fileToBase64 w fs f"
    by (simp_all add: extractPdfText_def fileToBase64_def readFileSync_def split: option.splits)
  show ?thesis by (simp only: recordOfFile_def e)
qed

lemma collectRecords_renameFails [simp]:
  "collectRecords parse (w \<lparr> renameFails := rf \<rparr>) fs tape files = collectRecords parse w fs tape files"
  by (induction files arbitrary: tape) (simp_all split: sum.splits option.splits prod.splits)

lemma parser_of_renameFails [simp]: "parser_of s (w \<lparr> renameFails := rf \<rparr>) = parser_of s w"
  by (cases s) (simp_all add: parser_of_def)

lemma uploads_renameFails [simp]:
  "requests_for (w \<lparr> renameFails := rf \<rparr>) recs = requests_for w recs"
  "bulk_for (w \<lparr> renameFails := rf \<rparr>) recs = bulk_for w recs"
  by (simp_all add: requests_for_def bulk_for_def bulkUpload_def)

lemma main_uploads:
  assumes "distinct (incoming fs)"
  shows "\<exists>run. main s w fs tape = Some run
           \<and> uploaded run = fst (collectRecords (parser_of s w) w fs tape (listPdfFiles fs))
           \<and> uploads run =
                (if s = Received \<or> s = Part001
                 then bulk_for w (fst (collectRecords (parser_of s w) w fs tape (listPdfFiles fs)))
                 else the (requests_for w (fst (collectRecords (parser_of s w) w fs tape (listPdfFiles fs)))))"
proof -
  from main_run [of s w fs tape] obtain recs failedFiles fs1 tape1 run where
    m: "prepareLoop_listed (parser_of s w) w (listPdfFiles fs) [] [] fs tape = Inr (recs, failedFiles, fs1, tape1)"
       "main s w fs tape = Some run" "uploaded run = recs"
       "uploads run = (if s = Received \<or> s = Part001 then bulk_for w recs else the (requests_for w recs))"
    by blast
  from loop_listing [OF parser_of_never_throws assms, of s w w tape] m(1)
  have "recs = fst (collectRecords (parser_of s w) w fs tape (listPdfFiles fs))" by auto
  then show ?thesis using m by simp
qed


section \<open>The sample inputs\<close>

lemmas regex_eval = match_js_def slice_def slice_from_def is_digit_def is_space_def is_upper_AZ_def
  char_eq_def cls_match_def to_upper_def to_lower_def lit_step_def rep_step_def rep_max_def Let_def
  re_examDate_def re_fax_def re_to_def re_dateTime_def re_dateTimeParts_def re_dateTimePM_def
  re_physicianInformation_def re_physicianName_def dateTime_items_def name_char_def credentials_def
  strip_non_digits_def trim_def

lemma collapse_a [simp]: "collapse_ws sample_text_a = sample_text_a"
  by (simp add: sample_text_a_def is_space_def)

lemma collapse_b [simp]: "collapse_ws sample_text_b = sample_text_b"
  by (simp add: sample_text_b_def is_space_def)

lemma sample_a_matches:
  "match_js re_examDate sample_text_a = None"
  "match_js re_fax sample_text_a = None"
  "match_js re_to sample_text_a = None"
  "match_js re_dateTime sample_text_a = Some [''3/15/2024 1:05 PM'', ''3/15/2024 1:05 PM'']"
  "match_js re_dateTimePM sample_text_a = Some [''3/15/2024 1:05 PM'', ''3/15/2024 1:05 PM'']"
  "match_js re_physicianInformation sample_text_a = None"
  "match_js re_physicianName sample_text_a = Some [''PHYSICIAN NAME: A B'', ''A B'']"
  by (simp_all add: sample_text_a_def regex_eval)

lemma sample_b_matches:
  "match_js re_examDate sample_text_b = Some [''Exam Date: 3/15/2024'', ''3/15/2024'']"
  "match_js re_fax sample_text_b = Some [''Fax: 207-555-1234'', ''207-555-1234'']"
  "match_js re_to sample_text_b = Some [''Fax: 207-555-1234 '', ''207-555-1234 '']"
  "match_js re_dateTime sample_text_b = Some [''3/15/2024 1:05 PM'', ''3/15/2024 1:05 PM'']"
  "match_js re_dateTimePM sample_text_b = Some [''3/15/2024 1:05 PM'', ''3/15/2024 1:05 PM'']"
  "match_js re_physicianInformation sample_text_b = None"
  "match_js re_physicianName sample_text_b = Some [''PHYSICIAN NAME: A B'', ''A B'']"
  by (simp_all add: sample_text_b_def regex_eval)

lemma sample_a_null: "parser_of s sample_world tape sample_text_a = Inr (None, tape)"
  by (cases s)
     (simp_all add: parser_of_def parsePdfText_sent1_def fields_sent1_def no_random_def
        parsePdfText_sent2_def fields_sent2_def parsePdfText_received_def fields_received_def
        parsePdfText_part000a_def fields_part000a_def parsePdfText_part000b_def fields_part000b_def
        parsePdfText_part001_def fields_part001_def fields_dateTime_plain fields_dateTime_dayEarlier
        extract_from_def extract_to_def sample_a_matches validate_def truthy_def Let_def
        sent_record_def received_record_def received_record_part001_def)

lemma sample_files:
  "extraction sample_world ''a.pdf'' = Some sample_text_a"
  "extraction sample_world ''b.pdf'' = Some sample_text_b"
  "extraction sample_world ''c.pdf'' = None"
  "listPdfFiles sample_folders = [''a.pdf'', ''b.pdf'', ''c.pdf'']"
  "folders_ok sample_folders"
  by (simp_all add: extraction_def sample_world_def listPdfFiles_def sample_folders_def endsWith_def
      folders_ok_def)

lemma sample_a_fails: "file_fails (parser_of s sample_world) sample_world ''a.pdf''"
  by (simp add: file_fails_def sample_files parse_null_def sample_a_null)

lemma sample_c_fails: "file_fails (parser_of s sample_world) sample_world ''c.pdf''"
  by (simp add: file_fails_def sample_files)


lemma sample_capture:
  "match_js re_dateTimeParts ''3/15/2024 1:05 PM''
     = Some [''3/15/2024 1:05 PM'', ''3'', ''15'', ''2024'', ''1'', ''05'', ''PM'']"
  by (simp add: regex_eval)

lemma sample_createdAt:
  "createdAt_dateTime ''3/15/2024 1:05 PM'' = Inr ''2024-03-15 13:05:00''"
  by (simp add: createdAt_dateTime_def sample_capture slice_from_def Let_def to24Hour_def
      js_Number_def digit_val_def padStart_def js_String_def show_nat.simps digit_char_def)

lemma sample_b_fields: "fields_received sample_text_b = Inr sample_record_b"
  by (simp add: fields_received_def fields_dateTime_def sample_b_matches sample_createdAt
      extract_to_def extract_sender_def extract_sender_fallback_def Let_def received_record_def
      sample_record_b_def strip_non_digits_def is_digit_def formatPhoneNumber_def slice_def
      slice_from_def trim_def is_space_def)

lemma sample_b_received:
  "parser_of Received sample_world tape sample_text_b = Inr (Some sample_record_b, tape)"
  by (simp add: parser_of_def no_random_def parsePdfText_received_def sample_b_fields validate_def
      truthy_def sample_record_b_def)

lemma sample_b_candidate:
  "candidate Received sample_world tape sample_text_b = Some sample_record_b"
  by (simp add: candidate_def sample_b_fields)

lemma sample_b_present: "all_present Received sample_record_b"
  by (simp add: all_present_def present_def party_field_def sample_record_b_def)

lemma sample_world_simps:
  "fileData sample_world f = (if f = ''c.pdf'' then None else Some f)"
  "pdfParse sample_world b = (if b = ''a.pdf'' then Some sample_text_a else Some sample_text_b)"
  "base64 sample_world b = b"
  "renameFails sample_world target f = False"
  "postOk sample_world rs = True"
  "dateParse sample_world d = Some sample_date"
  "localTime sample_world dt = dt"
  by (simp_all add: sample_world_def)

lemma sample_texts_nonempty: "sample_text_a \<noteq> []" "sample_text_b \<noteq> []"
  by (simp_all add: sample_text_a_def sample_text_b_def)

lemma sample_recordOfFile:
  assumes "set (incoming fs) \<subseteq> set (incoming sample_folders)"
  shows "recordOfFile (parser_of Received sample_world) sample_world fs tape ''a.pdf'' = Inr (None, tape)"
    "recordOfFile (parser_of Received sample_world) sample_world fs tape ''c.pdf'' = Inr (None, tape)"
    "''b.pdf'' \<in> set (incoming fs) \<Longrightarrow>
     recordOfFile (parser_of Received sample_world) sample_world fs tape ''b.pdf''
       = Inr (Some (sample_record_b \<lparr> rec_attachment := Some ''b.pdf'', rec_file_extension := Some ''pdf'' \<rparr>), tape)"
  by (simp_all add: recordOfFile_def extractPdfText_def readFileSync_def fileToBase64_def
      sample_world_simps sample_texts_nonempty sample_a_null sample_b_received)

lemma sample_received_records:
  "fst (collectRecords (parser_of Received sample_world) sample_world sample_folders tape
          (listPdfFiles sample_folders))
   = [sample_record_b \<lparr> rec_attachment := Some ''b.pdf'', rec_file_extension := Some ''pdf'' \<rparr>]"
proof -
  have b: "''b.pdf'' \<in> set (incoming sample_folders)" by (simp add: sample_folders_def)
  show ?thesis
    by (simp add: sample_files sample_recordOfFile b)
qed

lemma sample_dash_matches:
  "collapse_ws sample_text_dash = sample_text_dash"
  "match_js re_dateTime sample_text_dash = Some [''3/15/2024 1:05 PM'', ''3/15/2024 1:05 PM'']"
  "match_js re_fax sample_text_dash = Some [''Fax: -'', ''-'']"
  by (simp_all add: sample_text_dash_def regex_eval)

lemma sample_dash_fields: "fields_part000a sample_text_dash = Inr sample_record_dash"
  by (simp add: fields_part000a_def fields_dateTime_def sample_dash_matches sample_createdAt
      extract_from_def Let_def sample_record_dash_def strip_non_digits_def is_digit_def
      formatPhoneNumber_def)

lemma sample_formatDate: "formatDate sample_date = ''2024-03-15 13:05:00''"
  by (simp add: formatDate_def sample_date_def Let_def padStart_def js_String_def show_nat.simps
      digit_char_def)

lemma sample_b_part001:
  "parser_of Part001 sample_world tape sample_text_b = Inr (Some sample_record_b001, tape)"
  by (simp add: parser_of_def no_random_def parsePdfText_part001_def fields_part001_def
      sample_b_matches sample_world_simps sample_formatDate extract_from_def extract_sender_def
      extract_sender_fallback_def Let_def received_record_part001_def sample_record_b001_def
      strip_non_digits_def is_digit_def formatPhoneNumber_def slice_def slice_from_def trim_def
      is_space_def validate_def truthy_def)

lemma sample_recordOfFile_null:
  "recordOfFile (parser_of s sample_world) sample_world fs tape ''a.pdf'' = Inr (None, tape)"
  "recordOfFile (parser_of s sample_world) sample_world fs tape ''c.pdf'' = Inr (None, tape)"
  by (simp_all add: recordOfFile_def extractPdfText_def readFileSync_def
      sample_world_simps sample_texts_nonempty sample_a_null)

lemma sample_recordOfFile_part001:
  "''b.pdf'' \<in> set (incoming fs) \<Longrightarrow>
     recordOfFile (parser_of Part001 sample_world) sample_world fs tape ''b.pdf''
       = Inr (Some (sample_record_b001 \<lparr> rec_attachment := Some ''b.pdf'', rec_file_extension := Some ''pdf'' \<rparr>), tape)"
  by (simp add: recordOfFile_def extractPdfText_def readFileSync_def fileToBase64_def
      sample_world_simps sample_texts_nonempty sample_b_part001)

lemma sample_run_part001:
  "main Part001 sample_world sample_folders sample_tape =
     Some \<lparr> folders = \<lparr> incoming = [''a.pdf'', ''c.pdf'', ''notes.txt''], processed = [''b.pdf''], failed = [] \<rparr>,
            uploads = [([sample_record_b001 \<lparr> rec_attachment := Some ''b.pdf'', rec_file_extension := Some ''pdf'' \<rparr>], True)],
            caught = None \<rparr>"
proof -
  have p: "parser_of Part001 sample_world = no_random (\<lambda>text. Inr (parsePdfText_part001 (dateParse sample_world) text))"
    by (simp add: parser_of_def)
  have l: "listPdfFiles sample_folders = [''a.pdf'', ''b.pdf'', ''c.pdf'']" by (rule sample_files)
  have b: "''b.pdf'' \<in> set (incoming sample_folders)" by (simp add: sample_folders_def)
  have r: "tryRename sample_world sample_folders ''b.pdf'' ProcessedFolder
      = \<lparr> incoming = [''a.pdf'', ''c.pdf'', ''notes.txt''], processed = [''b.pdf''], failed = [] \<rparr>"
    by (simp add: tryRename_def renameSync_def sample_world_simps sample_folders_def)
  show ?thesis
    unfolding main_def script.case main_part001_def p [symmetric] l
    by (simp add: sample_recordOfFile_null sample_recordOfFile_part001 b r bulkUpload_def
        sample_world_simps)
qed

lemma sample_run_again:
  "main Sent1 sample_world sample_folders_again sample_tape =
     Some \<lparr> folders = \<lparr> incoming = [], processed = [''c.pdf''], failed = [''c.pdf''] \<rparr>,
            uploads = [], caught = None \<rparr>"
proof -
  have p: "parser_of Sent1 sample_world = parsePdfText_sent1 (localTime sample_world)"
    by (simp add: parser_of_def)
  have l: "listPdfFiles sample_folders_again = [''c.pdf'']"
    by (simp add: listPdfFiles_def sample_folders_again_def endsWith_def)
  have r: "tryRename sample_world sample_folders_again ''c.pdf'' FailedFolder
      = \<lparr> incoming = [], processed = [''c.pdf''], failed = [''c.pdf''] \<rparr>"
    by (simp add: tryRename_def renameSync_def sample_world_simps sample_folders_again_def)
  show ?thesis
    unfolding main_def script.case main_sent1_def main_batch_def prepareRecordsForUpload_listed_def
      p [symmetric] l
    by (simp add: sample_recordOfFile_null r)
qed

section \<open>Timestamps\<close>

lemma collapse_ws_nospace:
  "list_all (\<lambda>c. \<not> is_space c) a \<Longrightarrow> collapse_ws (a @ b) = a @ collapse_ws b"
  by (induction a) simp_all

lemma collapse_ws_space:
  "b \<noteq> [] \<Longrightarrow> \<not> is_space (hd b) \<Longrightarrow> collapse_ws (CHR '' '' # b) = CHR '' '' # collapse_ws b"
  by (cases b) (simp_all add: is_space_def)

lemma digits_not_space: "digits a \<Longrightarrow> list_all (\<lambda>c. \<not> is_space c) a"
  by (induction a) (auto simp: digits_def is_digit_def is_space_def)

lemma collapse_ws_timestamp:
  assumes "timestamp_fields (\<lambda>c. c = CHR ''A'' \<or> c = CHR ''P'') mo d y h mi p"
  shows "collapse_ws (timestamp_text mo d y h mi p @ rest) = timestamp_text mo d y h mi p @ collapse_ws rest"
proof -
  obtain h0 h1 where h: "h = h0 # h1" using assms by (cases h) (auto simp: timestamp_fields_def)
  obtain p0 where p: "p = [p0]" "p0 = CHR ''A'' \<or> p0 = CHR ''P''"
    using assms by (cases p) (auto simp: timestamp_fields_def)
  have ns: "list_all (\<lambda>c. \<not> is_space c) (mo @ ''/'' @ d @ ''/'' @ y)"
    "list_all (\<lambda>c. \<not> is_space c) (h @ '':'' @ mi)"
    "list_all (\<lambda>c. \<not> is_space c) (p @ ''M'')"
  proof -
    have dg: "list_all (\<lambda>c. \<not> is_space c) mo" "list_all (\<lambda>c. \<not> is_space c) d"
      "list_all (\<lambda>c. \<not> is_space c) y" "list_all (\<lambda>c. \<not> is_space c) h"
      "list_all (\<lambda>c. \<not> is_space c) mi"
      using assms by (simp_all add: timestamp_fields_def digits_not_space)
    have sl: "\<not> is_space CHR ''/''" "\<not> is_space CHR '':''" "\<not> is_space CHR ''A''"
      "\<not> is_space CHR ''P''" "\<not> is_space CHR ''M''"
      by (simp_all add: is_space_def)
    show "list_all (\<lambda>c. \<not> is_space c) (mo @ ''/'' @ d @ ''/'' @ y)"
      "list_all (\<lambda>c. \<not> is_space c) (h @ '':'' @ mi)"
      "list_all (\<lambda>c. \<not> is_space c) (p @ ''M'')"
      using dg sl p by auto
  qed
  have h0: "\<not> is_space h0" using ns(2) h by simp
  have p0: "\<not> is_space p0" using ns(3) p by simp
  have "collapse_ws (timestamp_text mo d y h mi p @ rest)
      = collapse_ws ((mo @ ''/'' @ d @ ''/'' @ y) @ CHR '' '' # (h @ '':'' @ mi) @ CHR '' '' # (p @ ''M'') @ rest)"
    by (simp add: timestamp_text_def)
  also have "\<dots> = (mo @ ''/'' @ d @ ''/'' @ y) @ collapse_ws (CHR '' '' # (h @ '':'' @ mi) @ CHR '' '' # (p @ ''M'') @ rest)"
    by (rule collapse_ws_nospace [OF ns(1)])
  also have "collapse_ws (CHR '' '' # (h @ '':'' @ mi) @ CHR '' '' # (p @ ''M'') @ rest)
      = CHR '' '' # collapse_ws ((h @ '':'' @ mi) @ CHR '' '' # (p @ ''M'') @ rest)"
    using h h0 by (intro collapse_ws_space) simp_all
  also have "collapse_ws ((h @ '':'' @ mi) @ CHR '' '' # (p @ ''M'') @ rest)
      = (h @ '':'' @ mi) @ collapse_ws (CHR '' '' # (p @ ''M'') @ rest)"
    by (rule collapse_ws_nospace [OF ns(2)])
  also have "collapse_ws (CHR '' '' # (p @ ''M'') @ rest) = CHR '' '' # collapse_ws ((p @ ''M'') @ rest)"
    using p p0 by (intro collapse_ws_space) simp_all
  also have "collapse_ws ((p @ ''M'') @ rest) = (p @ ''M'') @ collapse_ws rest"
    by (rule collapse_ws_nospace [OF ns(3)])
  finally show ?thesis by (simp add: timestamp_text_def)
qed

lemma match_dateTime_text:
  assumes "timestamp_fields (\<lambda>c. c = CHR ''A'' \<or> c = CHR ''P'') mo d y h mi p"
  shows "match_js re_dateTime (timestamp_text mo d y h mi p @ x)
           = Some [timestamp_text mo d y h mi p, timestamp_text mo d y h mi p]"
proof -
  have "rmatch (items re_dateTime) False (timestamp_text mo d y h mi p @ x)
          = Some [mo, ''/'', d, ''/'', y, '' '', h, '':'', mi, '' '', p, ''M'']"
    using rmatch_dateTime_text [OF assms, of x] by (simp add: re_dateTime_def)
  then have "rsearch (items re_dateTime) (ignoreCase re_dateTime) (timestamp_text mo d y h mi p @ x)
          = Some [mo, ''/'', d, ''/'', y, '' '', h, '':'', mi, '' '', p, ''M'']"
    by (simp add: rsearch_at_start re_dateTime_def)
  then show ?thesis
    by (simp add: match_js_def) (simp add: re_dateTime_def slice_def timestamp_text_def)
qed

lemma createdAt_of_timestamp:
  assumes "timestamp_fields (\<lambda>c. c = CHR ''A'' \<or> c = CHR ''P'') mo d y h mi p"
  shows "(case match_js re_dateTime (collapse_ws (timestamp_text mo d y h mi p @ rest)) of None \<Rightarrow> None
          | Some m \<Rightarrow> (case createdAt_dateTime (m ! 1) of Inr c \<Rightarrow> Some c | Inl e \<Rightarrow> None))
         = Some (y @ ''-'' @ padStart 2 mo @ ''-'' @ padStart 2 d @ '' ''
                  @ padStart 2 (js_String (int (to24Hour (js_Number h) (p @ ''M''))))
                  @ '':'' @ mi @ '':00'')"
    and "(case match_js re_dateTime (collapse_ws (timestamp_text mo d y h mi p @ rest)) of None \<Rightarrow> None
          | Some m \<Rightarrow> (case createdAt_dateTime_dayEarlier tz (m ! 1) of Inr c \<Rightarrow> Some c | Inl e \<Rightarrow> None))
         = Some (formatDate (setDate tz (dDate (new_Date tz (int (js_Number y)) (int (js_Number mo) - 1) (int (js_Number d))
                     (int (to24Hour (js_Number h) (p @ ''M''))) (int (js_Number mi))) - 1)
                   (new_Date tz (int (js_Number y)) (int (js_Number mo) - 1) (int (js_Number d))
                     (int (to24Hour (js_Number h) (p @ ''M''))) (int (js_Number mi)))))"
proof -
  have mi: "padStart 2 mi = mi" using assms by (simp add: timestamp_fields_def padStart_def)
  show "(case match_js re_dateTime (collapse_ws (timestamp_text mo d y h mi p @ rest)) of None \<Rightarrow> None
          | Some m \<Rightarrow> (case createdAt_dateTime (m ! 1) of Inr c \<Rightarrow> Some c | Inl e \<Rightarrow> None))
         = Some (y @ ''-'' @ padStart 2 mo @ ''-'' @ padStart 2 d @ '' ''
                  @ padStart 2 (js_String (int (to24Hour (js_Number h) (p @ ''M''))))
                  @ '':'' @ mi @ '':00'')"
    by (simp add: collapse_ws_timestamp [OF assms] match_dateTime_text [OF assms]
        createdAt_dateTime_text [OF assms] mi)
  show "(case match_js re_dateTime (collapse_ws (timestamp_text mo d y h mi p @ rest)) of None \<Rightarrow> None
          | Some m \<Rightarrow> (case createdAt_dateTime_dayEarlier tz (m ! 1) of Inr c \<Rightarrow> Some c | Inl e \<Rightarrow> None))
         = Some (formatDate (setDate tz (dDate (new_Date tz (int (js_Number y)) (int (js_Number mo) - 1) (int (js_Number d))
                     (int (to24Hour (js_Number h) (p @ ''M''))) (int (js_Number mi))) - 1)
                   (new_Date tz (int (js_Number y)) (int (js_Number mo) - 1) (int (js_Number d))
                     (int (to24Hour (js_Number h) (p @ ''M''))) (int (js_Number mi)))))"
    by (simp add: collapse_ws_timestamp [OF assms] match_dateTime_text [OF assms]
        createdAt_dateTime_dayEarlier_text [OF assms])
qed

lemma to24Hour_cases:
  assumes "p = ''A'' \<or> p = ''P''"
  shows "to24Hour n (p @ ''M'') =
           (if p = ''A'' then (if n = 12 then 0 else n) else (if n = 12 then 12 else n + 12))"
  using assms by (auto simp: to24Hour_def Let_def)

lemma candidate_createdAt:
  "map_option rec_createdAt (candidate Sent2 w tape t0) =
     Some (case match_js re_dateTime (collapse_ws t0) of None \<Rightarrow> None
           | Some m \<Rightarrow> (case createdAt_dateTime (m ! 1) of Inr c \<Rightarrow> Some c | Inl e \<Rightarrow> None))"
  "map_option rec_createdAt (candidate Received w tape t0) =
     Some (case match_js re_dateTime (collapse_ws t0) of None \<Rightarrow> None
           | Some m \<Rightarrow> (case createdAt_dateTime (m ! 1) of Inr c \<Rightarrow> Some c | Inl e \<Rightarrow> None))"
  "map_option rec_createdAt (candidate Part000a w tape t0) =
     Some (case match_js re_dateTime (collapse_ws t0) of None \<Rightarrow> None
           | Some m \<Rightarrow> (case createdAt_dateTime (m ! 1) of Inr c \<Rightarrow> Some c | Inl e \<Rightarrow> None))"
  "map_option rec_createdAt (candidate Part000b w tape t0) =
     Some (case match_js re_dateTime (collapse_ws t0) of None \<Rightarrow> None
           | Some m \<Rightarrow> (case createdAt_dateTime_dayEarlier (localTime w) (m ! 1) of Inr c \<Rightarrow> Some c | Inl e \<Rightarrow> None))"
  "map_option rec_createdAt (candidate Part001 w tape t0) =
     Some (case match_js re_dateTimePM (collapse_ws t0) of None \<Rightarrow> None
           | Some m \<Rightarrow> (case dateParse w (m ! 1) of Some dateObj \<Rightarrow> Some (formatDate dateObj) | None \<Rightarrow> None))"
  by (simp_all add: candidate_def fields_sent2_Inr fields_received_Inr fields_part000a_Inr
      fields_part000b_Inr fields_part001_def Let_def)

lemma sample_am_matches:
  "collapse_ws sample_text_am = sample_text_am"
  "match_js re_dateTimePM sample_text_am = None"
  by (simp_all add: sample_text_am_def regex_eval)

section \<open>The name of the physician\<close>







section \<open>The validity test and the folder of failed uploads\<close>

lemma part001_failed_untouched:
  assumes "folders_ok fs"
  shows "\<exists>run. main Part001 w fs tape = Some run \<and> failed (folders run) = failed fs"
proof -
  from main_run [of Part001 w fs tape] obtain recs failedFiles fs1 tape1 run where
    m: "prepareLoop_listed (parser_of Part001 w) w (listPdfFiles fs) [] [] fs tape = Inr (recs, failedFiles, fs1, tape1)"
       "main Part001 w fs tape = Some run"
       "folders run = fs1"
    by auto
  from loop_listing_folders [OF parser_of_never_throws assms, of Part001 w w tape] m(1)
  have "failed fs1 = failed fs" by auto
  then show ?thesis using m(2,3) by simp
qed

lemma all_present_iff: "all_present s r = valid_record s r"
  by (simp add: all_present_def valid_record_def present_def truthy_iff)

lemma parser_of_candidate:
  "\<exists>c tape'. candidate s w tape t0 = Some c
      \<and> parser_of s w tape t0 = Inr (if all_present s c then Some c else None, tape')"
  using parser_of_simps [of w tape t0]
  by (cases s) (auto simp: candidate_def all_present_iff valid_record_def party_field_def validate_def)

lemma uploaded_present:
  "\<exists>run. main s w fs tape = Some run \<and> (\<forall>r \<in> set (uploaded run). all_present s r)"
proof -
  from main_run [of s w fs tape] obtain recs failedFiles fs1 tape1 run where
    m: "prepareLoop_listed (parser_of s w) w (listPdfFiles fs) [] [] fs tape = Inr (recs, failedFiles, fs1, tape1)"
       "main s w fs tape = Some run" "uploaded run = recs"
    by blast
  have "\<forall>r \<in> set recs. valid_record s r"
  proof (rule loop_listed_all [where Q = "valid_record s", OF _ _ m(1)])
    show "\<And>tape t0 r tape'. parser_of s w tape t0 = Inr (Some r, tape') \<Longrightarrow> valid_record s r"
      by (rule parser_of_valid)
    show "\<And>r a e. valid_record s r \<Longrightarrow> valid_record s (r \<lparr> rec_attachment := a, rec_file_extension := e \<rparr>)"
      by (cases s) (simp_all add: valid_record_def party_field_def)
    show "\<forall>r \<in> set []. valid_record s r" by simp
  qed
  then show ?thesis using m(2,3) by (auto simp: all_present_iff)
qed

text \<open>
  C5. For every string \<open>d\<close> of length 10 (in particular every 10-digit numeric string)
  \<open>formatPhoneNumber d\<close> is \<open>(d[0:3]) d[3:6] - d[6:10]\<close>, and for every string whose
  length is not 10 it returns the string unchanged.
\<close>

theorem formatPhoneNumber_spec:
  "(length d = 10 \<longrightarrow>
      formatPhoneNumber d = ''('' @ take 3 d @ '') '' @ take 3 (drop 3 d) @ '' - '' @ take 4 (drop 6 d))
   \<and> (length d \<noteq> 10 \<longrightarrow> formatPhoneNumber d = d)"
  by (simp add: formatPhoneNumber_def slice_def slice_from_def)

theorem formatPhoneNumber_spec_witness:
  "length ''2075551234'' = 10
   \<and> formatPhoneNumber ''2075551234'' = ''(207) 555 - 1234''
   \<and> length ''20755512345'' \<noteq> 10
   \<and> formatPhoneNumber ''20755512345'' = ''20755512345''"
  using formatPhoneNumber_spec [of "''2075551234''"] formatPhoneNumber_spec [of "''20755512345''"]
  by simp

text \<open>
  C3. For every list of \<open>N\<close> records and every batch size \<open>B > 0\<close> (the scripts call
  it with 100), \<open>batchUpload\<close> terminates having submitted exactly \<open>ceil(N/B)\<close>
  batches; the \<open>k\<close>-th batch is the consecutive slice \<open>records[k*B, k*B+B)\<close>, every
  batch has at most \<open>B\<close> records, and the batches concatenated in submission order are
  the original list.
\<close>

theorem batchUpload_partition:
  assumes "0 < B"
  shows "\<exists>log. batchUpload post records B = Some log
           \<and> length log = nat \<lceil>real (length records) / real B\<rceil>
           \<and> (\<forall>k < length log. fst (log ! k) = slice records (k * B) (k * B + B))
           \<and> (\<forall>b \<in> set (map fst log). length b \<le> B)
           \<and> concat (map fst log) = records"
proof -
  from batchUploadFrom_partition [OF assms, of post records 0] obtain log where
    l: "batchUploadFrom post records B 0 = Some log"
       "length log = (length records - 0 + B - 1) div B"
       "\<forall>k < length log. fst (log ! k) = slice records (0 + k * B) (0 + k * B + B)"
       "\<forall>b \<in> set (map fst log). length b \<le> B"
       "concat (map fst log) = drop 0 records"
    by blast
  have "length log = nat \<lceil>real (length records) / real B\<rceil>"
    using l(2) ceil_div_nat [OF assms, of "length records"] by simp
  then show ?thesis
    using l by (intro exI [of _ log]) (simp add: batchUpload_def)
qed

theorem batchUpload_partition_witness:
  "(0::nat) < 2
   \<and> (\<exists>log. batchUpload (\<lambda>b. True) [1, 2, 3, 4, 5 :: nat] 2 = Some log
           \<and> length log = nat \<lceil>real (length [1, 2, 3, 4, 5 :: nat]) / real (2::nat)\<rceil>
           \<and> (\<forall>k < length log. fst (log ! k) = slice [1, 2, 3, 4, 5] (k * 2) (k * 2 + 2))
           \<and> (\<forall>b \<in> set (map fst log). length b \<le> 2)
           \<and> concat (map fst log) = [1, 2, 3, 4, 5])"
  using batchUpload_partition [of 2 "\<lambda>b. True" "[1, 2, 3, 4, 5 :: nat]"] by simp

text \<open>
  C9. A record is pushed on the upload list before the move of its file to \<^verbatim>\<open>processed/\<close>
  is tried, and a failed move is caught: whatever moves fail (\<open>rf\<close> is any other
  behaviour of \<^verbatim>\<open>renameSync\<close>), every script terminates and makes the same requests with
  the same records, and the records uploaded are those of \<open>collectRecords\<close>, which are
  determined by extraction and parsing alone.
\<close>

theorem upload_independent_of_relocation:
  assumes "distinct (incoming fs)"
  shows "\<exists>run run'. main s w fs tape = Some run
           \<and> main s (w \<lparr> renameFails := rf \<rparr>) fs tape = Some run'
           \<and> uploads run' = uploads run
           \<and> uploaded run = fst (collectRecords (parser_of s w) w fs tape (listPdfFiles fs))"
proof -
  from main_uploads [OF assms, of s w tape] obtain run where
    a: "main s w fs tape = Some run"
       "uploaded run = fst (collectRecords (parser_of s w) w fs tape (listPdfFiles fs))"
       "uploads run =
                (if s = Received \<or> s = Part001
                 then bulk_for w (fst (collectRecords (parser_of s w) w fs tape (listPdfFiles fs)))
                 else the (requests_for w (fst (collectRecords (parser_of s w) w fs tape (listPdfFiles fs)))))"
    by blast
  from main_uploads [OF assms, of s "w \<lparr> renameFails := rf \<rparr>" tape] obtain run' where
    b: "main s (w \<lparr> renameFails := rf \<rparr>) fs tape = Some run'"
       "uploads run' =
                (if s = Received \<or> s = Part001
                 then bulk_for w (fst (collectRecords (parser_of s w) w fs tape (listPdfFiles fs)))
                 else the (requests_for w (fst (collectRecords (parser_of s w) w fs tape (listPdfFiles fs)))))"
    by auto
  show ?thesis using a b by simp
qed

theorem upload_independent_of_relocation_witness:
  "distinct (incoming sample_folders)
   \<and> (\<exists>run run'. main Received sample_world sample_folders sample_tape = Some run
         \<and> main Received (sample_world \<lparr> renameFails := blocked \<rparr>) sample_folders sample_tape = Some run'
         \<and> uploads run' = uploads run
         \<and> uploaded run =
             [sample_record_b \<lparr> rec_attachment := Some ''b.pdf'', rec_file_extension := Some ''pdf'' \<rparr>])"
proof -
  have d: "distinct (incoming sample_folders)" by (simp add: sample_folders_def)
  from upload_independent_of_relocation [OF d, where s = Received and w = sample_world
      and tape = sample_tape and rf = blocked]
  show ?thesis using d by (simp add: sample_received_records)
qed

text \<open>
  C2. Let no name be listed twice in \<^verbatim>\<open>pdf_files/\<close> and no name be in two of the three
  folders when the run starts (\<open>folders_ok\<close>). Then in every script the run terminates
  and no file is in both \<^verbatim>\<open>processed/\<close> and the folder of failed uploads at the end. In
  every script but \<open>part001\<close>, each \<^verbatim>\<open>.pdf\<close> file of \<^verbatim>\<open>pdf_files/\<close> whose extraction fails
  or gives no text, or whose text the parser rejects, and whose move to the folder of
  failed uploads does not throw, is in that folder at the end and not in \<^verbatim>\<open>processed/\<close>.
  Both restrictions are needed: \<open>part001\<close> has no folder of failed uploads and leaves
  such a file in \<^verbatim>\<open>pdf_files/\<close>, and a failing file whose name is already in
  \<^verbatim>\<open>processed/\<close> ends in both folders.
\<close>

theorem failing_files_end_in_failed:
  assumes "folders_ok fs"
  shows "\<exists>run. main s w fs tape = Some run
           \<and> set (processed (folders run)) \<inter> set (failed (folders run)) = {}
           \<and> (s \<noteq> Part001 \<longrightarrow>
                (\<forall>f \<in> set (listPdfFiles fs).
                    file_fails (parser_of s w) w f \<and> \<not> renameFails w FailedFolder f \<longrightarrow>
                    f \<in> set (failed (folders run)) \<and> f \<notin> set (processed (folders run))))"
proof -
  let ?P = "parser_of s w"
  from main_run [of s w fs tape] obtain recs failedFiles fs1 tape1 run where
    m: "prepareLoop_listed ?P w (listPdfFiles fs) [] [] fs tape = Inr (recs, failedFiles, fs1, tape1)"
       "main s w fs tape = Some run"
       "folders run = (if s = Part001 then fs1 else if s = Received then moveFailedFiles w fs1
                       else moveToFailed w failedFiles fs1)"
    by blast
  from loop_listing_folders [OF parser_of_never_throws assms, of s w w tape] m(1)
  have l: "folders_ok fs1"
    "\<forall>f \<in> set (listPdfFiles fs). file_fails ?P w f \<longrightarrow> f \<in> set (incoming fs1) \<and> f \<in> set failedFiles"
    by auto
  have ok: "folders_ok (folders run)"
    using m(3) l(1) by (simp add: moveFailedFiles_def moveToFailed_ok)
  have moved: "f \<in> set (failed (folders run))"
    if "s \<noteq> Part001" "f \<in> set (listPdfFiles fs)" "file_fails ?P w f" "\<not> renameFails w FailedFolder f" for f
  proof -
    have i: "f \<in> set (incoming fs1)" "f \<in> set failedFiles" using l(2) that(2,3) by auto
    show ?thesis
    proof (cases "s = Received")
      case True
      have "f \<in> set (listPdfFiles fs1)"
        using i(1) that(2) by (simp add: listPdfFiles_props(3))
      from moveToFailed_moves [OF this i(1) that(4)] show ?thesis
        using True m(3) by (simp add: moveFailedFiles_def)
    next
      case False
      from moveToFailed_moves [OF i(2) i(1) that(4)] show ?thesis
        using False that(1) m(3) by simp
    qed
  qed
  have disj: "set (processed (folders run)) \<inter> set (failed (folders run)) = {}"
    using ok by (simp add: folders_ok_def)
  show ?thesis
    using m(2) disj moved by (intro exI [of _ run]) blast
qed

theorem failing_files_end_in_failed_witness:
  "folders_ok sample_folders
   \<and> Received \<noteq> Part001
   \<and> ''a.pdf'' \<in> set (listPdfFiles sample_folders)
   \<and> file_fails (parser_of Received sample_world) sample_world ''a.pdf''
   \<and> \<not> renameFails sample_world FailedFolder ''a.pdf''
   \<and> (\<exists>run. main Received sample_world sample_folders sample_tape = Some run
          \<and> set (processed (folders run)) \<inter> set (failed (folders run)) = {}
          \<and> ''a.pdf'' \<in> set (failed (folders run)) \<and> ''a.pdf'' \<notin> set (processed (folders run)))"
proof -
  have h: "folders_ok sample_folders" "''a.pdf'' \<in> set (listPdfFiles sample_folders)"
    "file_fails (parser_of Received sample_world) sample_world ''a.pdf''"
    "\<not> renameFails sample_world FailedFolder ''a.pdf''"
    by (simp_all add: sample_files sample_a_fails) (simp add: sample_world_def)
  from failing_files_end_in_failed [OF h(1), of Received sample_world sample_tape] h
  show ?thesis by auto
qed

theorem failing_file_left_or_in_both:
  "file_fails (parser_of Part001 sample_world) sample_world ''a.pdf''
   \<and> renameFails sample_world FailedFolder ''a.pdf'' = False
   \<and> map_option folders (main Part001 sample_world sample_folders sample_tape)
       = Some \<lparr> incoming = [''a.pdf'', ''c.pdf'', ''notes.txt''], processed = [''b.pdf''], failed = [] \<rparr>
   \<and> file_fails (parser_of Sent1 sample_world) sample_world ''c.pdf''
   \<and> renameFails sample_world FailedFolder ''c.pdf'' = False
   \<and> sample_folders_again = \<lparr> incoming = [''c.pdf''], processed = [''c.pdf''], failed = [] \<rparr>
   \<and> map_option folders (main Sent1 sample_world sample_folders_again sample_tape)
       = Some \<lparr> incoming = [], processed = [''c.pdf''], failed = [''c.pdf''] \<rparr>"
  by (simp add: sample_a_fails sample_c_fails sample_world_simps sample_run_part001 sample_run_again)
     (simp add: sample_folders_again_def)

text \<open>
  C1. In every script \<^verbatim>\<open>parsePdfText\<close> builds a candidate record and returns it if
  \<open>createdAt\<close>, the field read from the text (\<open>to\<close> in \<open>sent2\<close> and \<open>received\<close>, \<open>from\<close> in the
  others) and \<open>sender\<close> are all present, that is neither \<^verbatim>\<open>null\<close> nor the empty string;
  otherwise it returns \<^verbatim>\<open>null\<close>. Every run terminates, and every record it uploads has
  the three fields present.
\<close>

theorem record_iff_fields_present:
  "(\<exists>c tape'. candidate s w tape t0 = Some c
       \<and> parser_of s w tape t0 = Inr (if all_present s c then Some c else None, tape'))
   \<and> (\<exists>run. main s w fs tape = Some run \<and> (\<forall>r \<in> set (uploaded run). all_present s r))"
  using parser_of_candidate [of s w tape t0] uploaded_present [of s w fs tape] by simp

theorem record_iff_fields_present_witness:
  "candidate Received sample_world sample_tape sample_text_b = Some sample_record_b
   \<and> all_present Received sample_record_b
   \<and> parser_of Received sample_world sample_tape sample_text_b = Inr (Some sample_record_b, sample_tape)
   \<and> (\<exists>run. main Received sample_world sample_folders sample_tape = Some run
          \<and> uploaded run \<noteq> []
          \<and> (\<forall>r \<in> set (uploaded run). all_present Received r))"
proof -
  have d: "distinct (incoming sample_folders)" by (simp add: sample_folders_def)
  from main_uploads [OF d, of Received sample_world sample_tape]
  obtain run0 where
    r: "main Received sample_world sample_folders sample_tape = Some run0" "uploaded run0 \<noteq> []"
    by (auto simp: sample_received_records)
  from record_iff_fields_present [of Received sample_world sample_tape sample_text_b sample_folders] r
  show ?thesis
    by (auto simp: sample_b_candidate sample_b_present sample_b_received)
qed

theorem empty_fax_number_rejected:
  "candidate Part000a sample_world sample_tape sample_text_dash = Some sample_record_dash
   \<and> rec_createdAt sample_record_dash \<noteq> None
   \<and> party_field Part000a sample_record_dash \<noteq> None
   \<and> rec_sender sample_record_dash \<noteq> None
   \<and> parser_of Part000a sample_world sample_tape sample_text_dash = Inr (None, sample_tape)"
  by (simp add: candidate_def sample_dash_fields parser_of_def no_random_def parsePdfText_part000a_def
      validate_def truthy_def party_field_def)
     (simp add: sample_record_dash_def sent_record_def)

text \<open>
  C6. In the four scripts that take the timestamp apart themselves (\<open>sent2\<close>, \<open>received\<close>,
  \<open>part000a\<close>, \<open>part000b\<close>): for every timestamp \<^verbatim>\<open>M/D/YYYY H:MM AM\<close> or \<^verbatim>\<open>M/D/YYYY H:MM PM\<close>
  the hour on the 24-hour clock is 0 for 12 AM, 12 for 12 PM, the hour plus 12 for
  any other PM hour and the hour itself for any other AM hour; a text that begins
  with such a timestamp, AM or PM, gets \<open>createdAt\<close> from it with that hour (in \<open>part000b\<close>
  through a \<^verbatim>\<open>Date\<close> object set one day back); and whenever one of these scripts gives
  a \<open>createdAt\<close>, it is obtained in this way from a timestamp of the text.
\<close>

theorem timestamp_conversion:
  assumes "timestamp_fields (\<lambda>c. c = CHR ''A'' \<or> c = CHR ''P'') mo d y h mi p"
  shows "to24Hour (js_Number h) (p @ ''M'') =
           (if p = ''A'' then (if js_Number h = 12 then 0 else js_Number h)
            else (if js_Number h = 12 then 12 else js_Number h + 12))
       \<and> map_option rec_createdAt (candidate Sent2 w tape (timestamp_text mo d y h mi p @ rest))
           = Some (Some (createdAt_text y mo d (to24Hour (js_Number h) (p @ ''M'')) mi))
       \<and> map_option rec_createdAt (candidate Received w tape (timestamp_text mo d y h mi p @ rest))
           = Some (Some (createdAt_text y mo d (to24Hour (js_Number h) (p @ ''M'')) mi))
       \<and> map_option rec_createdAt (candidate Part000a w tape (timestamp_text mo d y h mi p @ rest))
           = Some (Some (createdAt_text y mo d (to24Hour (js_Number h) (p @ ''M'')) mi))
       \<and> map_option rec_createdAt (candidate Part000b w tape (timestamp_text mo d y h mi p @ rest))
           = Some (Some (formatDate (setDate (localTime w)
                (dDate (new_Date (localTime w) (int (js_Number y)) (int (js_Number mo) - 1) (int (js_Number d))
                     (int (to24Hour (js_Number h) (p @ ''M''))) (int (js_Number mi))) - 1)
                (new_Date (localTime w) (int (js_Number y)) (int (js_Number mo) - 1) (int (js_Number d))
                     (int (to24Hour (js_Number h) (p @ ''M''))) (int (js_Number mi))))))
       \<and> (\<forall>s \<in> {Sent2, Received, Part000a, Part000b}. \<forall>t0 c.
             candidate s w tape t0 = Some c \<and> rec_createdAt c \<noteq> None \<longrightarrow>
             (\<exists>mo d y h mi p pre post.
                 timestamp_fields (\<lambda>c. c = CHR ''A'' \<or> c = CHR ''P'') mo d y h mi p
               \<and> collapse_ws t0 = pre @ timestamp_text mo d y h mi p @ post
               \<and> rec_createdAt c =
                   (if s = Part000b
                    then Some (formatDate (setDate (localTime w)
                      (dDate (new_Date (localTime w) (int (js_Number y)) (int (js_Number mo) - 1) (int (js_Number d))
                           (int (to24Hour (js_Number h) (p @ ''M''))) (int (js_Number mi))) - 1)
                      (new_Date (localTime w) (int (js_Number y)) (int (js_Number mo) - 1) (int (js_Number d))
                           (int (to24Hour (js_Number h) (p @ ''M''))) (int (js_Number mi)))))
                    else Some (createdAt_text y mo d (to24Hour (js_Number h) (p @ ''M'')) mi))))"
proof -
  have p: "p = ''A'' \<or> p = ''P''"
    using assms by (cases p) (auto simp: timestamp_fields_def)
  have first: "to24Hour (js_Number h) (p @ ''M'') =
           (if p = ''A'' then (if js_Number h = 12 then 0 else js_Number h)
            else (if js_Number h = 12 then 12 else js_Number h + 12))"
    by (rule to24Hour_cases [OF p])
  note acc = createdAt_of_timestamp [OF assms, where rest = rest, folded createdAt_text_def]
  have conv: "\<exists>mo d y h mi p pre post.
                 timestamp_fields (\<lambda>c. c = CHR ''A'' \<or> c = CHR ''P'') mo d y h mi p
               \<and> collapse_ws t0 = pre @ timestamp_text mo d y h mi p @ post
               \<and> rec_createdAt c =
                   (if s = Part000b
                    then Some (formatDate (setDate (localTime w)
                      (dDate (new_Date (localTime w) (int (js_Number y)) (int (js_Number mo) - 1) (int (js_Number d))
                           (int (to24Hour (js_Number h) (p @ ''M''))) (int (js_Number mi))) - 1)
                      (new_Date (localTime w) (int (js_Number y)) (int (js_Number mo) - 1) (int (js_Number d))
                           (int (to24Hour (js_Number h) (p @ ''M''))) (int (js_Number mi)))))
                    else Some (createdAt_text y mo d (to24Hour (js_Number h) (p @ ''M'')) mi))"
    if s: "s \<in> {Sent2, Received, Part000a, Part000b}" and c: "candidate s w tape t0 = Some c"
      and n: "rec_createdAt c \<noteq> None" for s t0 c
  proof -
    have "match_js re_dateTime (collapse_ws t0) \<noteq> None"
      using s c n candidate_createdAt(1-4) [of w tape t0] by (auto split: option.splits)
    then obtain m where m: "match_js re_dateTime (collapse_ws t0) = Some m" by blast
    from match_dateTime_sound [OF m] obtain mo d y h mi p pre post where
      f: "timestamp_fields (\<lambda>c. c = CHR ''A'' \<or> c = CHR ''P'') mo d y h mi p"
         "m = [timestamp_text mo d y h mi p, timestamp_text mo d y h mi p]"
         "collapse_ws t0 = pre @ timestamp_text mo d y h mi p @ post" by blast
    have mi: "padStart 2 mi = mi" using f(1) by (simp add: timestamp_fields_def padStart_def)
    have m1: "m ! Suc 0 = timestamp_text mo d y h mi p" using f(2) by simp
    have a: "createdAt_dateTime (timestamp_text mo d y h mi p) = Inr (createdAt_text y mo d (to24Hour (js_Number h) (p @ ''M'')) mi)"
      by (simp add: createdAt_dateTime_text [OF f(1)] createdAt_text_def mi)
    have b: "createdAt_dateTime_dayEarlier (localTime w) (timestamp_text mo d y h mi p) =
        Inr (formatDate (setDate (localTime w)
                      (dDate (new_Date (localTime w) (int (js_Number y)) (int (js_Number mo) - 1) (int (js_Number d))
                           (int (to24Hour (js_Number h) (p @ ''M''))) (int (js_Number mi))) - 1)
                      (new_Date (localTime w) (int (js_Number y)) (int (js_Number mo) - 1) (int (js_Number d))
                           (int (to24Hour (js_Number h) (p @ ''M''))) (int (js_Number mi)))))"
      by (simp add: createdAt_dateTime_dayEarlier_text [OF f(1)])
    have "rec_createdAt c =
                   (if s = Part000b
                    then Some (formatDate (setDate (localTime w)
                      (dDate (new_Date (localTime w) (int (js_Number y)) (int (js_Number mo) - 1) (int (js_Number d))
                           (int (to24Hour (js_Number h) (p @ ''M''))) (int (js_Number mi))) - 1)
                      (new_Date (localTime w) (int (js_Number y)) (int (js_Number mo) - 1) (int (js_Number d))
                           (int (to24Hour (js_Number h) (p @ ''M''))) (int (js_Number mi)))))
                    else Some (createdAt_text y mo d (to24Hour (js_Number h) (p @ ''M'')) mi))"
      using s c candidate_createdAt(1-4) [of w tape t0] by (auto simp: m m1 a b)
    then show ?thesis using f(1,3) by blast
  qed
  show ?thesis
    using first acc(1) acc(2) [of "localTime w"] conv
    by (simp only: candidate_createdAt) blast
qed

theorem timestamp_conversion_witness:
  "timestamp_fields (\<lambda>c. c = CHR ''A'' \<or> c = CHR ''P'') ''3'' ''15'' ''2024'' ''12'' ''05'' ''A''
   \<and> to24Hour (js_Number ''12'') ''AM'' = 0
   \<and> map_option rec_createdAt (candidate Received sample_world sample_tape ''3/15/2024 12:05 AM Fax: 1'')
        = Some (Some ''2024-03-15 00:05:00'')"
proof -
  have f: "timestamp_fields (\<lambda>c. c = CHR ''A'' \<or> c = CHR ''P'') ''3'' ''15'' ''2024'' ''12'' ''05'' ''A''"
    by (simp add: timestamp_fields_def digits_def is_digit_def)
  have n: "js_Number ''12'' = 12" by (simp add: js_Number_def digit_val_def)
  have t: "timestamp_text ''3'' ''15'' ''2024'' ''12'' ''05'' ''A'' @ '' Fax: 1'' = ''3/15/2024 12:05 AM Fax: 1''"
    by (simp add: timestamp_text_def)
  have ct: "createdAt_text ''2024'' ''3'' ''15'' 0 ''05'' = ''2024-03-15 00:05:00''"
    by (simp add: createdAt_text_def padStart_def js_String_def show_nat.simps digit_char_def)
  from timestamp_conversion [OF f, of sample_world sample_tape "'' Fax: 1''"]
  have a: "to24Hour (js_Number ''12'') (''A'' @ ''M'') =
             (if ''A'' = ''A'' then (if js_Number ''12'' = 12 then 0 else js_Number ''12'')
              else (if js_Number ''12'' = 12 then 12 else js_Number ''12'' + 12))"
    and b: "map_option rec_createdAt (candidate Received sample_world sample_tape
               (timestamp_text ''3'' ''15'' ''2024'' ''12'' ''05'' ''A'' @ '' Fax: 1''))
            = Some (Some (createdAt_text ''2024'' ''3'' ''15'' (to24Hour (js_Number ''12'') (''A'' @ ''M'')) ''05''))"
    by blast+
  have h0: "to24Hour (js_Number ''12'') (''A'' @ ''M'') = 0" using a n by simp
  have "map_option rec_createdAt (candidate Received sample_world sample_tape ''3/15/2024 12:05 AM Fax: 1'')
        = Some (Some ''2024-03-15 00:05:00'')"
    using b unfolding t h0 ct .
  then show ?thesis using f h0 by simp
qed

theorem part001_rejects_am:
  "timestamp_fields (\<lambda>c. c = CHR ''A'' \<or> c = CHR ''P'') ''3'' ''15'' ''2024'' ''1'' ''05'' ''A''
   \<and> sample_text_am = timestamp_text ''3'' ''15'' ''2024'' ''1'' ''05'' ''A'' @ '' Fax: 207-555-1234 PHYSICIAN NAME: A B''
   \<and> match_js re_dateTimePM (collapse_ws sample_text_am) = None
   \<and> map_option rec_createdAt (candidate Part001 sample_world sample_tape sample_text_am) = Some None
   \<and> parser_of Part001 sample_world sample_tape sample_text_am = Inr (None, sample_tape)"
proof -
  have c: "rec_createdAt (fields_part001 (dateParse sample_world) sample_text_am) = None"
    by (simp add: fields_part001_def Let_def sample_am_matches)
  show ?thesis
    by (simp add: candidate_createdAt sample_am_matches parser_of_def no_random_def
        parsePdfText_part001_def validate_def truthy_def c)
       (simp add: timestamp_fields_def digits_def is_digit_def sample_text_am_def timestamp_text_def)
qed




end
